theory Spec2Isabelle
  imports Complex_Main
begin

section \<open>Tablet desk clock: corrected time, scheduling and retrying fetches\<close>

text \<open>
  A shallow embedding of \<^verbatim>\<open>src/clock.js\<close>. Instants are integer milliseconds since the
  epoch, as \<^verbatim>\<open>Date.now()\<close> and \<^verbatim>\<open>Date.prototype.getTime\<close> return them; the model covers
  the range in which a \<^verbatim>\<open>Date\<close> is valid and double arithmetic on integers is exact, so
  an instant is an \<^typ>\<open>int\<close>. The readings of the local clock, the firing of timers, the
  outcomes of requests, the value of \<^verbatim>\<open>Math.random()\<close> and the time zone of the platform
  are inputs of the model.
\<close>

subsection \<open>Parsed JSON payloads\<close>

text \<open>
  What \<^verbatim>\<open>JSON.parse\<close> returns. A number is an integral millisecond count (the time
  source's payload); an object is the list of its own properties, each key once.
\<close>

datatype json =
    JNull
  | JBool bool
  | JNumber int
  | JString string
  | JArray "json list"
  | JObject "(string \<times> json) list"

text \<open>The \<^verbatim>\<open>typeof\<close> operator: \<^verbatim>\<open>null\<close> and arrays are of type "object".\<close>

fun typeof_json :: "json \<Rightarrow> string" where
  "typeof_json JNull = ''object''"
| "typeof_json (JBool b) = ''boolean''"
| "typeof_json (JNumber n) = ''number''"
| "typeof_json (JString s) = ''string''"
| "typeof_json (JArray xs) = ''object''"
| "typeof_json (JObject kvs) = ''object''"

subsection \<open>The corrected clock\<close>

text \<open>
  \<^verbatim>\<open>var timeOffset = 0;\<close> is the only state of the corrected clock. It is passed to
  every function that reads it, together with the reading of \<^verbatim>\<open>Date.now()\<close>.
\<close>

definition timeOffset_initial :: int where
  "timeOffset_initial = 0"

text \<open>\<^verbatim>\<open>function getCorrectedDatetime() { return new Date(Date.now() + timeOffset); }\<close>\<close>

definition getCorrectedDatetime :: "int \<Rightarrow> int \<Rightarrow> int" where
  "getCorrectedDatetime dateNow timeOffset = dateNow + timeOffset"

text \<open>
  The callback that \<^verbatim>\<open>updateTimeOffset\<close> hands to \<^verbatim>\<open>getAndProcessJson\<close>:
  \<^verbatim>\<open>
  if (typeof data == "number") {
      timeOffset = data - Date.now();
      if (Math.abs(timeOffset) < 50)
          timeOffset = 0;
  }
  \<close>
  It takes the payload, the reading of \<^verbatim>\<open>Date.now()\<close> and the old offset, and returns the
  new offset.
\<close>

fun updateTimeOffset_onload :: "json \<Rightarrow> int \<Rightarrow> int \<Rightarrow> int" where
  "updateTimeOffset_onload (JNumber data) dateNow timeOffset =
     (let timeOffset' = data - dateNow
      in if \<bar>timeOffset'\<bar> < 50 then 0 else timeOffset')"
| "updateTimeOffset_onload data dateNow timeOffset = timeOffset"

subsection \<open>scheduleCall\<close>

text \<open>
  \<^verbatim>\<open>
  function scheduleCall(func, wake) {
      var delay = wake.getTime() - getCorrectedDatetime().getTime();
      if (delay <= 0)
          func();
      else
          setTimeout(function() { scheduleCall(func, wake); }, delay);
  }
  \<close>
  One evaluation of the body reads the corrected clock and either calls \<^verbatim>\<open>func\<close> at once
  or arms a one-shot timer.
\<close>

datatype sched_action = Invoke | SetTimeout int

definition scheduleCall :: "int \<Rightarrow> int \<Rightarrow> int \<Rightarrow> sched_action" where
  "scheduleCall wake dateNow timeOffset =
     (let delay = wake - getCorrectedDatetime dateNow timeOffset
      in if delay \<le> 0 then Invoke else SetTimeout delay)"

text \<open>
  The timer's callback is \<^verbatim>\<open>scheduleCall(func, wake)\<close> again. The platform decides when
  a timer fires, and the offset may have been recalibrated meanwhile, so a run takes the
  list of (\<^verbatim>\<open>Date.now()\<close>, \<^verbatim>\<open>timeOffset\<close>) at the successive firings. The trace records
  every timer armed, with its delay, and every call of \<^verbatim>\<open>func\<close>, with the corrected
  time that \<^verbatim>\<open>scheduleCall\<close> read just before it. A trace that ends in \<open>TimerSet\<close> is a
  call still pending when the list of firings ends.
\<close>

datatype sched_event = TimerSet int | Invoked int

fun scheduleCall_run :: "int \<Rightarrow> int \<Rightarrow> int \<Rightarrow> (int \<times> int) list \<Rightarrow> sched_event list" where
  "scheduleCall_run wake dateNow timeOffset [] =
     (case scheduleCall wake dateNow timeOffset of
        Invoke \<Rightarrow> [Invoked (getCorrectedDatetime dateNow timeOffset)]
      | SetTimeout delay \<Rightarrow> [TimerSet delay])"
| "scheduleCall_run wake dateNow timeOffset ((dateNow', timeOffset') # firings) =
     (case scheduleCall wake dateNow timeOffset of
        Invoke \<Rightarrow> [Invoked (getCorrectedDatetime dateNow timeOffset)]
      | SetTimeout delay \<Rightarrow> TimerSet delay # scheduleCall_run wake dateNow' timeOffset' firings)"

text \<open>The calls of \<^verbatim>\<open>func\<close> and the timers in a trace.\<close>

fun invocations :: "sched_event list \<Rightarrow> int list" where
  "invocations [] = []"
| "invocations (Invoked c # es) = c # invocations es"
| "invocations (TimerSet d # es) = invocations es"

fun timers :: "sched_event list \<Rightarrow> int list" where
  "timers [] = []"
| "timers (Invoked c # es) = timers es"
| "timers (TimerSet d # es) = d # timers es"

subsection \<open>getAndProcessJson\<close>

text \<open>
  \<^verbatim>\<open>
  function getAndProcessJson(url, timeout, retryCount, func) {
      var xhr = new XMLHttpRequest();
      xhr.onload = function() { func(JSON.parse(xhr.response)); };
      xhr.ontimeout = function() {
          if (retryCount < 9)  // Exponential back-off
              setTimeout(function() { getAndProcessJson(url, timeout, retryCount + 1, func); },
                         Math.pow(2, retryCount) * 1000);
      };
      xhr.open("GET", url, true); xhr.responseType = "text"; xhr.timeout = timeout; xhr.send();
  }
  \<close>
  Each request ends in one of three ways: the response loads (\<open>Load None\<close> when its text
  is not JSON, so that \<^verbatim>\<open>JSON.parse\<close> throws inside \<^verbatim>\<open>onload\<close>), the request times out,
  or it fails otherwise, for which no handler is installed. A run takes the outcomes of
  the successive requests; \<^verbatim>\<open>url\<close>, \<^verbatim>\<open>timeout\<close> and \<^verbatim>\<open>func\<close> are passed on unchanged. A
  trace that ends in \<open>Send\<close> is a request with no outcome in the list, a failed one, or
  the last timeout, after which nothing is scheduled.
\<close>

datatype xhr_outcome = Load "json option" | Timeout | NetworkError

datatype fetch_event =
    Send nat
  | Callback json
  | SyntaxErrorThrown
  | Backoff nat

fun getAndProcessJson :: "nat \<Rightarrow> xhr_outcome list \<Rightarrow> fetch_event list" where
  "getAndProcessJson retryCount [] = [Send retryCount]"
| "getAndProcessJson retryCount (Load (Some data) # outcomes) = [Send retryCount, Callback data]"
| "getAndProcessJson retryCount (Load None # outcomes) = [Send retryCount, SyntaxErrorThrown]"
| "getAndProcessJson retryCount (NetworkError # outcomes) = [Send retryCount]"
| "getAndProcessJson retryCount (Timeout # outcomes) =
     Send retryCount #
     (if retryCount < 9
      then Backoff (2 ^ retryCount * 1000) # getAndProcessJson (retryCount + 1) outcomes
      else [])"

text \<open>The requests sent, the back-off delays and the payloads handed to \<^verbatim>\<open>func\<close>.\<close>

fun attempts :: "fetch_event list \<Rightarrow> nat list" where
  "attempts [] = []"
| "attempts (Send k # es) = k # attempts es"
| "attempts (e # es) = attempts es"

fun backoffs :: "fetch_event list \<Rightarrow> nat list" where
  "backoffs [] = []"
| "backoffs (Backoff d # es) = d # backoffs es"
| "backoffs (e # es) = backoffs es"

fun callbacks :: "fetch_event list \<Rightarrow> json list" where
  "callbacks [] = []"
| "callbacks (Callback data # es) = data # callbacks es"
| "callbacks (e # es) = callbacks es"

subsection \<open>The platform's Date: time values and local calendar fields\<close>

text \<open>
  A \<^verbatim>\<open>Date\<close> is its time value. The getters and setters that \<^verbatim>\<open>clock.js\<close> calls are
  those of ECMAScript, written with the abstract operations of its section on Date
  objects (Day, TimeWithinDay, DayFromYear, YearFromTime, MonthFromTime, DateFromTime,
  HourFromTime, ..., MakeTime, MakeDay, MakeDate, LocalTime, UTC). \<^verbatim>\<open>/\<close> and \<^verbatim>\<open>modulo\<close>
  there are floor division and its remainder, as \<open>div\<close> and \<open>mod\<close> on \<^typ>\<open>int\<close> are.
\<close>

definition msPerSecond :: int where "msPerSecond = 1000"
definition msPerMinute :: int where "msPerMinute = 60000"
definition msPerHour :: int where "msPerHour = 3600000"
definition msPerDay :: int where "msPerDay = 86400000"

definition Day :: "int \<Rightarrow> int" where
  "Day t = t div msPerDay"

definition TimeWithinDay :: "int \<Rightarrow> int" where
  "TimeWithinDay t = t mod msPerDay"

definition DayFromYear :: "int \<Rightarrow> int" where
  "DayFromYear y =
     365 * (y - 1970) + (y - 1969) div 4 - (y - 1901) div 100 + (y - 1601) div 400"

text \<open>
  The largest \<open>y\<close> with \<open>DayFromYear y \<le> Day t\<close>: the estimate from the mean length of a
  year is off by one at most.
\<close>

definition YearFromTime :: "int \<Rightarrow> int" where
  "YearFromTime t =
     (let d = Day t; y = 1970 + (d * 400) div 146097
      in if DayFromYear (y + 1) \<le> d then y + 1
         else if DayFromYear y \<le> d then y
         else y - 1)"

definition DaysInYear :: "int \<Rightarrow> int" where
  "DaysInYear y =
     (if y mod 4 \<noteq> 0 then 365
      else if y mod 100 \<noteq> 0 then 366
      else if y mod 400 \<noteq> 0 then 365
      else 366)"

definition InLeapYear :: "int \<Rightarrow> int" where
  "InLeapYear t = (if DaysInYear (YearFromTime t) = 366 then 1 else 0)"

definition DayWithinYear :: "int \<Rightarrow> int" where
  "DayWithinYear t = Day t - DayFromYear (YearFromTime t)"

text \<open>The day within the year on which month \<open>m\<close> (0 to 11) starts.\<close>

definition month_start :: "int \<Rightarrow> int \<Rightarrow> int" where
  "month_start m leap =
     (if m = 0 then 0
      else if m = 1 then 31
      else if m = 2 then 59 + leap
      else if m = 3 then 90 + leap
      else if m = 4 then 120 + leap
      else if m = 5 then 151 + leap
      else if m = 6 then 181 + leap
      else if m = 7 then 212 + leap
      else if m = 8 then 243 + leap
      else if m = 9 then 273 + leap
      else if m = 10 then 304 + leap
      else 334 + leap)"

definition MonthFromTime :: "int \<Rightarrow> int" where
  "MonthFromTime t =
     (let d = DayWithinYear t; leap = InLeapYear t
      in if d < 31 then 0
         else if d < 59 + leap then 1
         else if d < 90 + leap then 2
         else if d < 120 + leap then 3
         else if d < 151 + leap then 4
         else if d < 181 + leap then 5
         else if d < 212 + leap then 6
         else if d < 243 + leap then 7
         else if d < 273 + leap then 8
         else if d < 304 + leap then 9
         else if d < 334 + leap then 10
         else 11)"

definition DateFromTime :: "int \<Rightarrow> int" where
  "DateFromTime t = DayWithinYear t - month_start (MonthFromTime t) (InLeapYear t) + 1"

definition HourFromTime :: "int \<Rightarrow> int" where
  "HourFromTime t = (t div msPerHour) mod 24"

definition MinFromTime :: "int \<Rightarrow> int" where
  "MinFromTime t = (t div msPerMinute) mod 60"

definition SecFromTime :: "int \<Rightarrow> int" where
  "SecFromTime t = (t div msPerSecond) mod 60"

definition msFromTime :: "int \<Rightarrow> int" where
  "msFromTime t = t mod msPerSecond"

definition MakeTime :: "int \<Rightarrow> int \<Rightarrow> int \<Rightarrow> int \<Rightarrow> int" where
  "MakeTime hour minute sec ms = hour * msPerHour + minute * msPerMinute + sec * msPerSecond + ms"

definition MakeDay :: "int \<Rightarrow> int \<Rightarrow> int \<Rightarrow> int" where
  "MakeDay year month date =
     (let ym = year + month div 12; mn = month mod 12
      in DayFromYear ym + month_start mn (if DaysInYear ym = 366 then 1 else 0) + date - 1)"

definition MakeDate :: "int \<Rightarrow> int \<Rightarrow> int" where
  "MakeDate day time = day * msPerDay + time"

text \<open>
  The local time zone is the platform's: its offset from UTC changes at a daylight-saving
  transition. A zone \<open>z\<close> is the operation \<^verbatim>\<open>LocalTZA(t, isUTC)\<close> of ECMAScript:
  \<open>z t True\<close> is the offset in force at the instant \<open>t\<close>, and \<open>z t False\<close> is the offset
  that the platform applies to the local time value \<open>t\<close>. \<^verbatim>\<open>LocalTime\<close> adds the first to an
  instant, \<^verbatim>\<open>UTC\<close> subtracts the second from a local time value. A local time that a
  transition skips is still converted by \<^verbatim>\<open>UTC\<close>, to an instant whose local time is
  another one; and an instant in the second pass through an hour that a transition
  repeats is not what \<^verbatim>\<open>UTC\<close> makes of its local time.
\<close>

type_synonym zone = "int \<Rightarrow> bool \<Rightarrow> int"

definition LocalTime :: "zone \<Rightarrow> int \<Rightarrow> int" where
  "LocalTime z t = t + z t True"

definition UTC :: "zone \<Rightarrow> int \<Rightarrow> int" where
  "UTC z t = t - z t False"

text \<open>Two zones: one whose offset never changes, and New York in 2015.\<close>

definition constant_zone :: "int \<Rightarrow> zone" where
  "constant_zone tza = (\<lambda>t isUTC. tza)"

text \<open>
  New York in 2015 is 5 hours behind UTC, and 4 hours behind from 2015-03-08T07:00:00Z
  (02:00 local time, when the clocks go to 03:00) until 2015-11-01T06:00:00Z (02:00 local
  time, when they go back to 01:00). A local time of the skipped hour, or of the repeated
  hour, is converted with the offset in force before the transition, as ECMAScript
  requires of \<^verbatim>\<open>LocalTZA(t, false)\<close>.
\<close>

definition new_york_2015 :: zone where
  "new_york_2015 t isUTC =
     (if isUTC
      then (if 1425798000000 \<le> t \<and> t < 1446357600000 then - 14400000 else - 18000000)
      else (if 1425783600000 \<le> t \<and> t < 1446343200000 then - 14400000 else - 18000000))"

text \<open>
  The methods of \<^verbatim>\<open>Date.prototype\<close> in the zone \<open>z\<close>; \<open>d\<close> is the receiver, a setter returns
  its new value.
\<close>

definition getFullYear :: "zone \<Rightarrow> int \<Rightarrow> int" where
  "getFullYear z d = YearFromTime (LocalTime z d)"

definition getMonth :: "zone \<Rightarrow> int \<Rightarrow> int" where
  "getMonth z d = MonthFromTime (LocalTime z d)"

definition getDate :: "zone \<Rightarrow> int \<Rightarrow> int" where
  "getDate z d = DateFromTime (LocalTime z d)"

definition getHours :: "zone \<Rightarrow> int \<Rightarrow> int" where
  "getHours z d = HourFromTime (LocalTime z d)"

definition getMinutes :: "zone \<Rightarrow> int \<Rightarrow> int" where
  "getMinutes z d = MinFromTime (LocalTime z d)"

definition getSeconds :: "zone \<Rightarrow> int \<Rightarrow> int" where
  "getSeconds z d = SecFromTime (LocalTime z d)"

definition getMilliseconds :: "zone \<Rightarrow> int \<Rightarrow> int" where
  "getMilliseconds z d = msFromTime (LocalTime z d)"

definition setHours :: "zone \<Rightarrow> int \<Rightarrow> int \<Rightarrow> int" where
  "setHours z d hour =
     (let t = LocalTime z d
      in UTC z (MakeDate (Day t) (MakeTime hour (MinFromTime t) (SecFromTime t) (msFromTime t))))"

definition setMinutes :: "zone \<Rightarrow> int \<Rightarrow> int \<Rightarrow> int" where
  "setMinutes z d minute =
     (let t = LocalTime z d
      in UTC z (MakeDate (Day t) (MakeTime (HourFromTime t) minute (SecFromTime t) (msFromTime t))))"

definition setSeconds :: "zone \<Rightarrow> int \<Rightarrow> int \<Rightarrow> int" where
  "setSeconds z d sec =
     (let t = LocalTime z d
      in UTC z (MakeDate (Day t) (MakeTime (HourFromTime t) (MinFromTime t) sec (msFromTime t))))"

text \<open>
  \<^verbatim>\<open>setMilliseconds\<close> truncates its argument to an integer (\<open>ToInteger\<close> below); \<open>ms\<close> is the
  truncated value.
\<close>

definition setMilliseconds :: "zone \<Rightarrow> int \<Rightarrow> int \<Rightarrow> int" where
  "setMilliseconds z d ms =
     (let t = LocalTime z d
      in UTC z (MakeDate (Day t) (MakeTime (HourFromTime t) (MinFromTime t) (SecFromTime t) ms)))"

definition setDate :: "zone \<Rightarrow> int \<Rightarrow> int \<Rightarrow> int" where
  "setDate z d date =
     (let t = LocalTime z d
      in UTC z (MakeDate (MakeDay (YearFromTime t) (MonthFromTime t) date) (TimeWithinDay t)))"

subsection \<open>The jitter: a product of doubles\<close>

text \<open>
  \<^verbatim>\<open>Math.random() * 2 * 60 * 1000\<close> is computed in IEEE 754 double arithmetic: each of the
  three products is rounded to the nearest double, ties to the even significand. A
  non-negative double is a pair \<open>(m, e)\<close> that stands for \<open>m * 2 ^ e\<close>, and the multipliers
  are whole numbers, so a product is exact as a pair and then rounded to 53 significant
  bits. (No product here leaves the range of the exponents of doubles: a value of
  \<^verbatim>\<open>Math.random()\<close> is a multiple of \<open>2 ^ - 1074\<close> below 1, and so is every product of it;
  rounding to 53 bits is then the rounding of the format.)
\<close>

type_synonym double = "int \<times> int"

definition double_value :: "double \<Rightarrow> real" where
  "double_value d = (case d of (m, e) \<Rightarrow> of_int m * 2 powi e)"

text \<open>The number of bits of \<open>n\<close>: the least \<open>b\<close> with \<open>n < 2 ^ b\<close>.\<close>

fun bit_length :: "int \<Rightarrow> nat" where
  "bit_length n = (if n \<le> 0 then 0 else Suc (bit_length (n div 2)))"

declare bit_length.simps [simp del]

text \<open>\<open>n / 2 ^ s\<close> rounded to the nearest integer, a tie to the even one.\<close>

definition round_half_even :: "int \<Rightarrow> nat \<Rightarrow> int" where
  "round_half_even n s =
     (let q = n div 2 ^ s; r = n mod 2 ^ s
      in if 2 * r < 2 ^ s then q
         else if 2 ^ s < 2 * r then q + 1
         else if even q then q else q + 1)"

definition round53 :: "double \<Rightarrow> double" where
  "round53 d =
     (case d of (n, e) \<Rightarrow>
        if bit_length n \<le> 53 then (n, e)
        else (round_half_even n (bit_length n - 53), e + int (bit_length n - 53)))"

text \<open>The product \<^verbatim>\<open>d * c\<close> of a double and a whole number \<open>c\<close>.\<close>

definition double_times :: "double \<Rightarrow> int \<Rightarrow> double" where
  "double_times d c = (case d of (m, e) \<Rightarrow> round53 (m * c, e))"

text \<open>The truncation of a non-negative double to an integer.\<close>

definition ToInteger :: "double \<Rightarrow> int" where
  "ToInteger d = (case d of (m, e) \<Rightarrow> if 0 \<le> e then m * 2 ^ nat e else m div 2 ^ nat (- e))"

text \<open>A value of \<^verbatim>\<open>Math.random()\<close>: a double in \<open>[0, 1)\<close>.\<close>

definition is_random :: "double \<Rightarrow> bool" where
  "is_random d \<longleftrightarrow>
     (case d of (m, e) \<Rightarrow> 0 \<le> m \<and> m < 2 ^ 53 \<and> - 1074 \<le> e \<and> double_value d < 1)"

text \<open>
  The milliseconds that \<^verbatim>\<open>setMilliseconds(Math.random() * 2 * 60 * 1000)\<close> sets, for the
  value \<open>random\<close> of \<^verbatim>\<open>Math.random()\<close>.
\<close>

definition jitter :: "double \<Rightarrow> int" where
  "jitter random = ToInteger (double_times (double_times (double_times random 2) 60) 1000)"

subsection \<open>The wake times of the periodic jobs\<close>


text \<open>
  In \<^verbatim>\<open>scheduleNextMorning\<close>:
  \<^verbatim>\<open>
  var next = now.clone();
  next.setHours(7); next.setMinutes(0); next.setSeconds(0); next.setMilliseconds(0);
  if (next.getTime() < now.getTime())
      next.setDate(next.getDate() + 1);
  \<close>
\<close>

definition scheduleNextMorning_next :: "zone \<Rightarrow> int \<Rightarrow> int" where
  "scheduleNextMorning_next z now =
     (let next = now;
          next = setHours z next 7;
          next = setMinutes z next 0;
          next = setSeconds z next 0;
          next = setMilliseconds z next 0
      in if next < now then setDate z next (getDate z next + 1) else next)"

text \<open>
  In \<^verbatim>\<open>autoUpdateWeather\<close>, where \<open>random\<close> is the value of \<^verbatim>\<open>Math.random()\<close>:
  \<^verbatim>\<open>
  var next = now.clone();
  next.setMinutes(4); next.setSeconds(0);
  next.setMilliseconds(Math.random() * 2 * 60 * 1000);  // Deliberate jitter of 2 minutes
  if (next.getTime() < now.getTime() || next.getHours() == now.getHours() && now.getMinutes() >= 4)
      next.setHours(next.getHours() + 1);
  \<close>
\<close>

definition autoUpdateWeather_next :: "zone \<Rightarrow> int \<Rightarrow> double \<Rightarrow> int" where
  "autoUpdateWeather_next z now random =
     (let next = now;
          next = setMinutes z next 4;
          next = setSeconds z next 0;
          next = setMilliseconds z next (jitter random)
      in if next < now \<or> getHours z next = getHours z now \<and> getMinutes z now \<ge> 4
         then setHours z next (getHours z next + 1)
         else next)"

text \<open>
  To state where a wake time lies: the day number of the local date of \<open>now\<close>, and the
  instant that the platform makes of the local time \<open>h:m:s.ms\<close> of day number \<open>day\<close>.
\<close>

definition local_day :: "zone \<Rightarrow> int \<Rightarrow> int" where
  "local_day z now = Day (LocalTime z now)"

definition local_instant :: "zone \<Rightarrow> int \<Rightarrow> int \<Rightarrow> int \<Rightarrow> int \<Rightarrow> int \<Rightarrow> int" where
  "local_instant z day h m s ms = UTC z (MakeDate day (MakeTime h m s ms))"

text \<open>
  One offset \<open>c\<close> is in force over the local times from \<open>a\<close> up to \<open>b\<close>: the platform
  converts each of them with \<open>c\<close>, and \<open>c\<close> is the offset at the instant it obtains. No
  transition of the zone skips or splits these local times. (Over the hour that a
  transition repeats, this holds with the earlier offset when the platform converts as
  \<open>new_york_2015\<close> does.)
\<close>

definition steady_on :: "zone \<Rightarrow> int \<Rightarrow> int \<Rightarrow> int \<Rightarrow> bool" where
  "steady_on z a b c \<longleftrightarrow>
     (\<forall>u. a \<le> u \<and> u < b \<longrightarrow> z u False = c \<and> z (u - c) True = c)"

subsection \<open>Numbers as strings\<close>

text \<open>
  The string that \<^verbatim>\<open>+\<close> and the DOM make of an integral number: its decimal numeral,
  with a minus sign when it is negative.
\<close>

definition digit_char :: "nat \<Rightarrow> char" where
  "digit_char d = ''0123456789'' ! d"

fun string_of_nat :: "nat \<Rightarrow> string" where
  "string_of_nat n =
     (if n < 10 then [digit_char n] else string_of_nat (n div 10) @ [digit_char (n mod 10)])"

declare string_of_nat.simps [simp del]

definition ToString_int :: "int \<Rightarrow> string" where
  "ToString_int i = (if i < 0 then ''-'' @ string_of_nat (nat (- i)) else string_of_nat (nat i))"

subsection \<open>twoDigits\<close>

text \<open>
  \<^verbatim>\<open>
  function twoDigits(n) {
      if (typeof n != "number" || n < 0 || n >= 100 || Math.floor(n) != n)
          throw "Integer expected";
      return (n < 10 ? "0" : "") + n;
  }
  \<close>
  The argument is any value of the language. A number is a real, \<^verbatim>\<open>NaN\<close> or an infinity
  (comparisons and \<^verbatim>\<open>Math.floor\<close> are exact on doubles; \<^verbatim>\<open>-0\<close> behaves as \<open>0\<close> here). Every
  comparison with \<^verbatim>\<open>NaN\<close> is false and \<^verbatim>\<open>NaN != NaN\<close> is true; the floor of an infinity is
  that infinity.
\<close>

datatype js_value =
    Undefined
  | Null
  | Boolean bool
  | Number real
  | NaN
  | PosInfinity
  | NegInfinity
  | String string
  | Symbol
  | Function
  | Object

fun typeof :: "js_value \<Rightarrow> string" where
  "typeof Undefined = ''undefined''"
| "typeof Null = ''object''"
| "typeof (Boolean b) = ''boolean''"
| "typeof (Number x) = ''number''"
| "typeof NaN = ''number''"
| "typeof PosInfinity = ''number''"
| "typeof NegInfinity = ''number''"
| "typeof (String s) = ''string''"
| "typeof Symbol = ''symbol''"
| "typeof Function = ''function''"
| "typeof Object = ''object''"

text \<open>
  What a \<^verbatim>\<open>throw\<close> or a failing operation raises. \<open>OutsideModel\<close> is not an exception of
  the program: it is the result on the one shape of payload that the model leaves out
  (see \<open>show_messages\<close>).
\<close>

datatype exn = TypeError | Thrown string | OutsideModel

fun twoDigits :: "js_value \<Rightarrow> exn + string" where
  "twoDigits (Number n) =
     (if n < 0 \<or> n \<ge> 100 \<or> of_int \<lfloor>n\<rfloor> \<noteq> n
      then Inl (Thrown ''Integer expected'')
      else Inr ((if n < 10 then ''0'' else []) @ ToString_int \<lfloor>n\<rfloor>))"
| "twoDigits NaN = Inl (Thrown ''Integer expected'')"
| "twoDigits PosInfinity = Inl (Thrown ''Integer expected'')"
| "twoDigits NegInfinity = Inl (Thrown ''Integer expected'')"
| "twoDigits n = Inl (Thrown ''Integer expected'')"

subsection \<open>The morning reminders\<close>

text \<open>
  The callback that \<^verbatim>\<open>doMorningRequest\<close> hands to \<^verbatim>\<open>getAndProcessJson\<close>:
  \<^verbatim>\<open>
  if (typeof data != "object") {
      clearMessages(); addMessage("(Error)");
  } else {
      clearMessages();
      var d = getCorrectedDatetime();
      var key = d.getFullYear() + (d.getMonth() + 1 < 10 ? "0" : "") + (d.getMonth() + 1)
              + (d.getDate() < 10 ? "0" : "") + d.getDate();
      if (key in data) {
          var msgs = data[key];
          if (msgs.length == 0) addMessage("(None)");
          else { for (var i = 0; i < msgs.length; i++) addMessage(msgs[i]); }
      } else addMessage("(Data missing)");
  }
  \<close>
\<close>

definition doMorningRequest_key :: "zone \<Rightarrow> int \<Rightarrow> string" where
  "doMorningRequest_key z d =
     ToString_int (getFullYear z d)
     @ (if getMonth z d + 1 < 10 then ''0'' else []) @ ToString_int (getMonth z d + 1)
     @ (if getDate z d < 10 then ''0'' else []) @ ToString_int (getDate z d)"

text \<open>
  An array index is a property name that is the decimal numeral of a number below
  \<open>2^32 - 1\<close>.
\<close>

definition nat_of_digits :: "string \<Rightarrow> nat" where
  "nat_of_digits s = foldl (\<lambda>a c. 10 * a + (of_char c - 48)) 0 s"

definition array_index :: "string \<Rightarrow> nat option" where
  "array_index s =
     (let n = nat_of_digits s
      in if string_of_nat n = s \<and> n < 4294967295 then Some n else None)"

text \<open>
  \<^verbatim>\<open>data[key]\<close> for a payload of type "object" that is not \<^verbatim>\<open>null\<close>; \<open>None\<close> is a property
  that is absent, for which \<^verbatim>\<open>key in data\<close> is false. The inherited properties of
  \<^verbatim>\<open>Object.prototype\<close> and \<^verbatim>\<open>Array.prototype\<close> are left out: their names are identifiers,
  and the names looked up are made of digits and at most a minus sign, or are one of
  \<^verbatim>\<open>"sunrise"\<close>, \<^verbatim>\<open>"sunset"\<close>, \<^verbatim>\<open>"condition"\<close>, \<^verbatim>\<open>"temperature"\<close>.
\<close>

fun get_property :: "json \<Rightarrow> string \<Rightarrow> json option" where
  "get_property (JObject kvs) key = map_of kvs key"
| "get_property (JArray xs) key =
     (case array_index key of
        Some i \<Rightarrow> if i < length xs then Some (xs ! i) else None
      | None \<Rightarrow> if key = ''length'' then Some (JNumber (int (length xs))) else None)"
| "get_property data key = None"

text \<open>
  \<^verbatim>\<open>ToString\<close>, which \<^verbatim>\<open>document.createTextNode\<close>, the concatenation with a string and
  \<^verbatim>\<open>parseFloat\<close> apply to their argument. An object is converted by its \<^verbatim>\<open>toString\<close>
  method: the one it inherits gives \<^verbatim>\<open>"[object Object]"\<close>, but a parsed object with a
  property \<^verbatim>\<open>"toString"\<close> of its own has a value there that cannot be called, and the
  conversion raises a TypeError. An array is its elements joined with commas, \<^verbatim>\<open>null\<close>
  elements as the empty string, and raises what the conversion of an element raises.
  \<open>ToString_throws\<close> tells whether the conversion raises, \<open>ToString_json\<close> is the string
  when it does not.
\<close>

fun ToString_throws :: "json \<Rightarrow> bool" where
  "ToString_throws (JObject kvs) = (map_of kvs ''toString'' \<noteq> None)"
| "ToString_throws (JArray xs) = list_ex ToString_throws xs"
| "ToString_throws v = False"

fun join :: "string \<Rightarrow> string list \<Rightarrow> string" where
  "join sep [] = []"
| "join sep [s] = s"
| "join sep (s # t # ss) = s @ sep @ join sep (t # ss)"

fun ToString_json :: "json \<Rightarrow> string" where
  "ToString_json JNull = ''null''"
| "ToString_json (JBool b) = (if b then ''true'' else ''false'')"
| "ToString_json (JNumber n) = ToString_int n"
| "ToString_json (JString s) = s"
| "ToString_json (JArray xs) =
     join '','' (map (\<lambda>x. if x = JNull then [] else ToString_json x) xs)"
| "ToString_json (JObject kvs) = ''[object Object]''"

text \<open>
  The messages shown for \<^verbatim>\<open>msgs = data[key]\<close>, in a list that \<^verbatim>\<open>clearMessages()\<close> has
  emptied, and what the loop raises, if it does. An array and a string have a length and
  elements; \<^verbatim>\<open>addMessage(msgs[i])\<close> converts the element to a string, and when that raises,
  the messages added before it stay. \<^verbatim>\<open>null.length\<close> raises a TypeError. A number, a
  boolean and an object without a \<^verbatim>\<open>length\<close> property have the length \<^verbatim>\<open>undefined\<close>, which
  is neither \<^verbatim>\<open>== 0\<close> nor above \<open>i\<close>, so nothing is shown. An object with a \<^verbatim>\<open>length\<close> property
  of its own (an array-like object) is outside the model.
\<close>

fun show_messages :: "json \<Rightarrow> string list \<times> exn option" where
  "show_messages (JArray msgs) =
     (if length msgs = 0 then ([''(None)''], None)
      else (map ToString_json (takeWhile (\<lambda>x. \<not> ToString_throws x) msgs),
            if list_ex ToString_throws msgs then Some TypeError else None))"
| "show_messages (JString msgs) =
     (if length msgs = 0 then ([''(None)''], None) else (map (\<lambda>c. [c]) msgs, None))"
| "show_messages JNull = ([], Some TypeError)"
| "show_messages (JBool b) = ([], None)"
| "show_messages (JNumber n) = ([], None)"
| "show_messages (JObject kvs) =
     (case map_of kvs ''length'' of None \<Rightarrow> ([], None) | Some l \<Rightarrow> ([], Some OutsideModel))"

text \<open>
  The callback takes the zone, the corrected instant \<open>now\<close> that
  \<^verbatim>\<open>getCorrectedDatetime()\<close> returns and the payload. Its result is the list of reminders
  shown when it ends, and what it raises, if it does not return. \<^verbatim>\<open>key in null\<close> raises a
  TypeError, right after \<^verbatim>\<open>clearMessages()\<close>.
\<close>

definition doMorningRequest_onload :: "zone \<Rightarrow> int \<Rightarrow> json \<Rightarrow> string list \<times> exn option" where
  "doMorningRequest_onload z now data =
     (if typeof_json data \<noteq> ''object'' then ([''(Error)''], None)
      else let key = doMorningRequest_key z now
           in if data = JNull then ([], Some TypeError)
              else (case get_property data key of
                      Some msgs \<Rightarrow> show_messages msgs
                    | None \<Rightarrow> ([''(Data missing)''], None)))"

subsection \<open>The writes to the module-level variables\<close>

text \<open>
  Two module-level variables are assigned after start-up: \<^verbatim>\<open>timeOffset\<close> and the weather
  module's \<^verbatim>\<open>weatherTextIsSet\<close>. \<open>run_handler\<close> is the effect on them of each piece of code
  that the event loop, or the start-up code, enters (the DOM is not part of the model).
  The functions handed to \<^verbatim>\<open>scheduleCall\<close> are the four jobs; of these only
  \<^verbatim>\<open>autoUpdateWeather\<close> assigns a variable (\<^verbatim>\<open>weatherTextIsSet = false\<close>). A timer armed by
  \<^verbatim>\<open>scheduleCall(func, wake)\<close> runs \<^verbatim>\<open>scheduleCall(func, wake)\<close> again, which calls \<^verbatim>\<open>func\<close>
  or re-arms. The callback of \<^verbatim>\<open>doWeatherRequest\<close>,
  \<^verbatim>\<open>
  if (typeof data != "object") { ... } else {
      sunrisesetTextNode.data = SUN_CHAR + " " + data["sunrise"] + " ~ " + data["sunset"] + " " + MOON_CHAR;
      conditionTextNode.data = data["condition"];
      temperatureTextNode.data = Math.round(parseFloat(data["temperature"])).toString()...;
      ...
  }
  weatherTextIsSet = true;
  \<close>
  ends with the assignment, which it does not reach when a statement before it raises: for
  the payload \<^verbatim>\<open>null\<close> (\<^verbatim>\<open>data["sunrise"]\<close> raises a TypeError), and when the conversion
  to a string of one of the four properties raises.
\<close>

record globals =
  var_timeOffset :: int
  var_weatherTextIsSet :: bool

datatype job = AutoUpdateClockDisplay | AutoUpdateWallpaper | AutoUpdateWeather | ShowMorning

fun run_job :: "job \<Rightarrow> globals \<Rightarrow> globals" where
  "run_job AutoUpdateWeather g = g\<lparr>var_weatherTextIsSet := False\<rparr>"
| "run_job func g = g"

datatype handler =
    Call job
  | ScheduleCallTimeout job int
  | GetAndProcessJsonOntimeout
  | RandomizeWallpaperOnload json
  | UpdateTimeOffset
  | UpdateTimeOffsetOnload json
  | DoWeatherRequestOnload json
  | WeatherPlaceholderTimeout
  | DoMorningRequestOnload json
  | ScheduleNextMorning
  | HideMorning
  | TogglePane
  | ReloadWeather

definition doWeatherRequest_onload_raises :: "json \<Rightarrow> bool" where
  "doWeatherRequest_onload_raises data \<longleftrightarrow>
     typeof_json data = ''object'' \<and>
     (data = JNull \<or>
      list_ex (\<lambda>key. case get_property data key of Some v \<Rightarrow> ToString_throws v | None \<Rightarrow> False)
        [''sunrise'', ''sunset'', ''condition'', ''temperature''])"

fun run_handler :: "handler \<Rightarrow> int \<Rightarrow> globals \<Rightarrow> globals" where
  "run_handler (Call func) dateNow g = run_job func g"
| "run_handler (ScheduleCallTimeout func wake) dateNow g =
     (case scheduleCall wake dateNow (var_timeOffset g) of
        Invoke \<Rightarrow> run_job func g
      | SetTimeout delay \<Rightarrow> g)"
| "run_handler (UpdateTimeOffsetOnload data) dateNow g =
     g\<lparr>var_timeOffset := updateTimeOffset_onload data dateNow (var_timeOffset g)\<rparr>"
| "run_handler (DoWeatherRequestOnload data) dateNow g =
     (if doWeatherRequest_onload_raises data then g else g\<lparr>var_weatherTextIsSet := True\<rparr>)"
| "run_handler h dateNow g = g"

section \<open>Properties\<close>

subsection \<open>scheduleCall: one evaluation and whole runs\<close>

lemma scheduleCall_early:
  "getCorrectedDatetime dateNow timeOffset < wake \<Longrightarrow>
   scheduleCall wake dateNow timeOffset = SetTimeout (wake - getCorrectedDatetime dateNow timeOffset)"
  by (simp add: scheduleCall_def Let_def)

lemma scheduleCall_due:
  "wake \<le> getCorrectedDatetime dateNow timeOffset \<Longrightarrow> scheduleCall wake dateNow timeOffset = Invoke"
  by (simp add: scheduleCall_def Let_def)

lemma scheduleCall_run_due:
  "wake \<le> getCorrectedDatetime dateNow timeOffset \<Longrightarrow>
   scheduleCall_run wake dateNow timeOffset firings = [Invoked (getCorrectedDatetime dateNow timeOffset)]"
  by (cases firings) (auto simp: scheduleCall_due)

lemma scheduleCall_run_early_Nil:
  "getCorrectedDatetime dateNow timeOffset < wake \<Longrightarrow>
   scheduleCall_run wake dateNow timeOffset [] = [TimerSet (wake - getCorrectedDatetime dateNow timeOffset)]"
  by (simp add: scheduleCall_early)

lemma scheduleCall_run_early_Cons:
  "getCorrectedDatetime dateNow timeOffset < wake \<Longrightarrow>
   scheduleCall_run wake dateNow timeOffset ((n, off) # firings) =
     TimerSet (wake - getCorrectedDatetime dateNow timeOffset) # scheduleCall_run wake n off firings"
  by (simp add: scheduleCall_early)

lemma invocations_not_early:
  "c \<in> set (invocations (scheduleCall_run wake dateNow timeOffset firings)) \<Longrightarrow> wake \<le> c"
proof (induction firings arbitrary: dateNow timeOffset)
  case Nil
  then show ?case by (cases "getCorrectedDatetime dateNow timeOffset < wake") (auto simp: scheduleCall_early scheduleCall_due)
next
  case (Cons f firings)
  obtain n off where f: "f = (n, off)" by (cases f)
  show ?case
  proof (cases "getCorrectedDatetime dateNow timeOffset < wake")
    case True
    with Cons show ?thesis by (auto simp: f scheduleCall_early scheduleCall_due)
  next
    case False
    with Cons.prems show ?thesis by (auto simp: scheduleCall_run_due)
  qed
qed

lemma invocations_at_most_once:
  "length (invocations (scheduleCall_run wake dateNow timeOffset firings)) \<le> 1"
proof (induction firings arbitrary: dateNow timeOffset)
  case Nil
  then show ?case by (cases "getCorrectedDatetime dateNow timeOffset < wake") (auto simp: scheduleCall_early scheduleCall_due)
next
  case (Cons f firings)
  obtain n off where f: "f = (n, off)" by (cases f)
  show ?case
  proof (cases "getCorrectedDatetime dateNow timeOffset < wake")
    case True
    with Cons show ?thesis by (auto simp: f scheduleCall_early scheduleCall_due)
  next
    case False
    then show ?thesis by (auto simp: scheduleCall_run_due)
  qed
qed

lemma invoked_eventually:
  "\<exists>(n, off) \<in> set firings. wake \<le> getCorrectedDatetime n off \<Longrightarrow>
   length (invocations (scheduleCall_run wake dateNow timeOffset firings)) = 1"
proof (induction firings arbitrary: dateNow timeOffset)
  case Nil
  then show ?case by simp
next
  case (Cons f firings)
  obtain n off where f: "f = (n, off)" by (cases f)
  show ?case
  proof (cases "getCorrectedDatetime dateNow timeOffset < wake")
    case early: True
    show ?thesis
    proof (cases "wake \<le> getCorrectedDatetime n off")
      case True
      with early show ?thesis by (simp add: f scheduleCall_early scheduleCall_due scheduleCall_run_due)
    next
      case False
      with Cons.prems f have "\<exists>(n, off) \<in> set firings. wake \<le> getCorrectedDatetime n off" by auto
      from Cons.IH [OF this] early show ?thesis by (simp add: f scheduleCall_early scheduleCall_due)
    qed
  next
    case False
    then show ?thesis by (auto simp: scheduleCall_run_due)
  qed
qed

lemma pending_while_early:
  "getCorrectedDatetime dateNow timeOffset < wake \<Longrightarrow>
   \<forall>(n, off) \<in> set firings. getCorrectedDatetime n off < wake \<Longrightarrow>
   scheduleCall_run wake dateNow timeOffset firings =
     map (\<lambda>(n, off). TimerSet (wake - getCorrectedDatetime n off)) ((dateNow, timeOffset) # firings)"
proof (induction firings arbitrary: dateNow timeOffset)
  case Nil
  then show ?case by (simp add: scheduleCall_early)
next
  case (Cons f firings)
  obtain n off where f: "f = (n, off)" by (cases f)
  from Cons.prems f have "getCorrectedDatetime n off < wake" by auto
  moreover from Cons.prems have "\<forall>(n, off) \<in> set firings. getCorrectedDatetime n off < wake" by auto
  ultimately have "scheduleCall_run wake n off firings =
     map (\<lambda>(n, off). TimerSet (wake - getCorrectedDatetime n off)) ((n, off) # firings)"
    by (rule Cons.IH)
  with Cons.prems show ?case by (simp add: f scheduleCall_early scheduleCall_due)
qed

lemma timer_honoured:
  assumes "getCorrectedDatetime dateNow timeOffset < wake"
    and "dateNow + (wake - getCorrectedDatetime dateNow timeOffset) \<le> n" and "timeOffset \<le> off"
  shows "scheduleCall_run wake dateNow timeOffset ((n, off) # firings) =
     [TimerSet (wake - getCorrectedDatetime dateNow timeOffset), Invoked (getCorrectedDatetime n off)]"
proof -
  from assms have "wake \<le> getCorrectedDatetime n off" by (simp add: getCorrectedDatetime_def)
  with assms(1) show ?thesis by (simp add: scheduleCall_early scheduleCall_due scheduleCall_run_due)
qed

text \<open>
  Claim C1. When corrected time is strictly before \<open>wake\<close> at the call of
  \<^verbatim>\<open>scheduleCall(func, wake)\<close>: \<^verbatim>\<open>func\<close> is never called at a corrected time before \<open>wake\<close>
  and is called at most once; the first evaluation arms a timer for the time that is
  missing; as long as every firing still reads a corrected time before \<open>wake\<close>, each firing
  re-evaluates the deadline and arms a new timer for what is then missing, and \<^verbatim>\<open>func\<close> is
  not called; as soon as one firing reads a corrected time at or after \<open>wake\<close>, \<^verbatim>\<open>func\<close> is
  called, exactly once; and a timer that fires no earlier than it was asked to, with an
  offset that has not decreased, is such a firing, so that the call happens at the first
  firing.
\<close>

theorem scheduleCall_never_early_and_eventually:
  assumes "getCorrectedDatetime dateNow timeOffset < wake"
  shows "(\<forall>c \<in> set (invocations (scheduleCall_run wake dateNow timeOffset firings)). wake \<le> c)
    \<and> length (invocations (scheduleCall_run wake dateNow timeOffset firings)) \<le> 1
    \<and> scheduleCall wake dateNow timeOffset =
          SetTimeout (wake - getCorrectedDatetime dateNow timeOffset)
    \<and> ((\<forall>(n, off) \<in> set firings. getCorrectedDatetime n off < wake) \<longrightarrow>
          scheduleCall_run wake dateNow timeOffset firings =
            map (\<lambda>(n, off). TimerSet (wake - getCorrectedDatetime n off))
              ((dateNow, timeOffset) # firings))
    \<and> ((\<exists>(n, off) \<in> set firings. wake \<le> getCorrectedDatetime n off) \<longrightarrow>
          length (invocations (scheduleCall_run wake dateNow timeOffset firings)) = 1)
    \<and> (dateNow + (wake - getCorrectedDatetime dateNow timeOffset) \<le> n \<and> timeOffset \<le> off \<longrightarrow>
          scheduleCall_run wake dateNow timeOffset ((n, off) # rest) =
            [TimerSet (wake - getCorrectedDatetime dateNow timeOffset),
             Invoked (getCorrectedDatetime n off)])"
proof -
  have "\<forall>c \<in> set (invocations (scheduleCall_run wake dateNow timeOffset firings)). wake \<le> c"
    using invocations_not_early by blast
  moreover have "length (invocations (scheduleCall_run wake dateNow timeOffset firings)) \<le> 1"
    by (rule invocations_at_most_once)
  moreover have "scheduleCall wake dateNow timeOffset =
      SetTimeout (wake - getCorrectedDatetime dateNow timeOffset)"
    using assms by (rule scheduleCall_early)
  moreover have "(\<forall>(n, off) \<in> set firings. getCorrectedDatetime n off < wake) \<longrightarrow>
      scheduleCall_run wake dateNow timeOffset firings =
        map (\<lambda>(n, off). TimerSet (wake - getCorrectedDatetime n off))
          ((dateNow, timeOffset) # firings)"
    using assms pending_while_early by blast
  moreover have "(\<exists>(n, off) \<in> set firings. wake \<le> getCorrectedDatetime n off) \<longrightarrow>
      length (invocations (scheduleCall_run wake dateNow timeOffset firings)) = 1"
    using invoked_eventually by blast
  moreover have "dateNow + (wake - getCorrectedDatetime dateNow timeOffset) \<le> n \<and> timeOffset \<le> off \<longrightarrow>
      scheduleCall_run wake dateNow timeOffset ((n, off) # rest) =
        [TimerSet (wake - getCorrectedDatetime dateNow timeOffset),
         Invoked (getCorrectedDatetime n off)]"
    using assms timer_honoured by blast
  ultimately show ?thesis by blast
qed

text \<open>
  At \<open>wake = 1000\<close>, called at local time \<open>900\<close> with offset \<open>20\<close>: the timer asks for
  \<open>80\<close> ms; the clock is recalibrated to offset \<open>-30\<close> while it waits, so the firing at
  local time \<open>985\<close> reads \<open>955\<close> and re-arms for \<open>45\<close> ms; the firing at \<open>1032\<close> reads \<open>1002\<close>
  and calls \<^verbatim>\<open>func\<close>.
\<close>

theorem scheduleCall_never_early_and_eventually_witness:
  "getCorrectedDatetime 900 20 < 1000
   \<and> scheduleCall 1000 900 20 = SetTimeout 80
   \<and> scheduleCall_run 1000 900 20 [(985, -30), (1032, -30)] = [TimerSet 80, TimerSet 45, Invoked 1002]
   \<and> length (invocations (scheduleCall_run 1000 900 20 [(985, -30), (1032, -30)])) = 1
   \<and> scheduleCall_run 1000 900 20 [(985, -30)] = [TimerSet 80, TimerSet 45]
   \<and> scheduleCall_run 1000 900 20 [(983, 20)] = [TimerSet 80, Invoked 1003]"
proof -
  have h: "getCorrectedDatetime 900 20 < 1000"
    by (simp add: getCorrectedDatetime_def)
  show ?thesis
    using h
      scheduleCall_never_early_and_eventually [OF h, of "[(985, -30), (1032, -30)]" 983 20 "[]"]
      scheduleCall_never_early_and_eventually [OF h, of "[(985, -30)]" 983 20 "[]"]
    by (simp add: getCorrectedDatetime_def scheduleCall_def)
qed

text \<open>
  Claim C2. When corrected time at the call is at or after \<open>wake\<close>,
  \<^verbatim>\<open>scheduleCall(func, wake)\<close> takes the branch that calls \<^verbatim>\<open>func\<close>, in the same evaluation;
  whatever timers fire afterwards, the whole run is that one call: \<^verbatim>\<open>func\<close> is called
  exactly once and no timer is armed.
\<close>

theorem scheduleCall_due_calls_at_once:
  assumes "wake \<le> getCorrectedDatetime dateNow timeOffset"
  shows "scheduleCall wake dateNow timeOffset = Invoke
    \<and> scheduleCall_run wake dateNow timeOffset firings =
          [Invoked (getCorrectedDatetime dateNow timeOffset)]
    \<and> length (invocations (scheduleCall_run wake dateNow timeOffset firings)) = 1
    \<and> timers (scheduleCall_run wake dateNow timeOffset firings) = []"
  using assms by (simp add: scheduleCall_due scheduleCall_run_due)

theorem scheduleCall_due_calls_at_once_witness:
  "1000 \<le> getCorrectedDatetime 980 20
   \<and> scheduleCall 1000 980 20 = Invoke
   \<and> scheduleCall_run 1000 980 20 [(990, 20), (2000, 20)] = [Invoked 1000]
   \<and> timers (scheduleCall_run 1000 980 20 [(990, 20), (2000, 20)]) = []"
proof -
  have h: "1000 \<le> getCorrectedDatetime 980 20"
    by (simp add: getCorrectedDatetime_def)
  show ?thesis
    using h scheduleCall_due_calls_at_once [OF h, of "[(990, 20), (2000, 20)]"]
    by (simp add: getCorrectedDatetime_def)
qed

subsection \<open>getAndProcessJson: the retry policy\<close>

lemma timeouts_then:
  "retryCount + k \<le> 9 \<Longrightarrow>
   getAndProcessJson retryCount (replicate k Timeout @ outcomes) =
     concat (map (\<lambda>i. [Send i, Backoff (2 ^ i * 1000)]) [retryCount ..< retryCount + k])
     @ getAndProcessJson (retryCount + k) outcomes"
proof (induction k arbitrary: retryCount)
  case 0
  then show ?case by simp
next
  case (Suc k)
  then have "getAndProcessJson (Suc retryCount) (replicate k Timeout @ outcomes) =
     concat (map (\<lambda>i. [Send i, Backoff (2 ^ i * 1000)]) [Suc retryCount ..< Suc retryCount + k])
     @ getAndProcessJson (Suc retryCount + k) outcomes"
    by simp
  with Suc.prems show ?case by (simp add: upt_conv_Cons)
qed

lemma attempts_bound:
  "length (attempts (getAndProcessJson retryCount outcomes)) \<le> 10 - retryCount \<or>
   length (attempts (getAndProcessJson retryCount outcomes)) = 1"
proof (induction retryCount outcomes rule: getAndProcessJson.induct)
  case (5 retryCount outcomes)
  then show ?case by auto
qed auto

lemma attempts_le_10: "length (attempts (getAndProcessJson 0 outcomes)) \<le> 10"
  using attempts_bound [of 0 outcomes] by auto

lemma backoffs_exact:
  "\<exists>m. backoffs (getAndProcessJson retryCount outcomes) = map (\<lambda>k. 2 ^ k * 1000) [retryCount ..< retryCount + m]
     \<and> retryCount + m \<le> max 9 retryCount"
proof (induction retryCount outcomes rule: getAndProcessJson.induct)
  case (5 retryCount outcomes)
  show ?case
  proof (cases "retryCount < 9")
    case True
    with 5 obtain m where m: "backoffs (getAndProcessJson (retryCount + 1) outcomes) =
        map (\<lambda>k. 2 ^ k * 1000) [retryCount + 1 ..< retryCount + 1 + m]"
      and le: "retryCount + 1 + m \<le> max 9 (retryCount + 1)" by blast
    have "[retryCount ..< retryCount + (m + 1)] = retryCount # [retryCount + 1 ..< retryCount + 1 + m]"
      by (simp add: upt_conv_Cons)
    with m True have "backoffs (getAndProcessJson retryCount (Timeout # outcomes)) =
        map (\<lambda>k. 2 ^ k * 1000) [retryCount ..< retryCount + (m + 1)]"
      by simp
    moreover from le True have "retryCount + (m + 1) \<le> max 9 retryCount" by simp
    ultimately show ?thesis by blast
  next
    case False
    then have "backoffs (getAndProcessJson retryCount (Timeout # outcomes)) = map (\<lambda>k. 2 ^ k * 1000) [retryCount ..< retryCount + 0]"
      by simp
    then show ?thesis by (metis add_0_right max.cobounded2)
  qed
qed (simp_all, (rule exI [of _ 0], simp)+)

lemma backoffs_le_9:
  "retryCount + length (backoffs (getAndProcessJson retryCount outcomes)) \<le> 9 \<or> backoffs (getAndProcessJson retryCount outcomes) = []"
proof (induction retryCount outcomes rule: getAndProcessJson.induct)
  case (5 retryCount outcomes)
  then show ?case by auto
qed auto

lemma callbacks_at_most_one: "length (callbacks (getAndProcessJson retryCount outcomes)) \<le> 1"
  by (induction retryCount outcomes rule: getAndProcessJson.induct) auto

lemma attempts_schedule [simp]: "attempts (concat (map (\<lambda>i. [Send i, Backoff (f i)]) ks) @ es) = ks @ attempts es"
  by (induction ks) auto

lemma backoffs_schedule [simp]: "backoffs (concat (map (\<lambda>i. [Send i, Backoff (f i)]) ks) @ es) = map f ks @ backoffs es"
  by (induction ks) auto

lemma callbacks_schedule [simp]: "callbacks (concat (map (\<lambda>i. [Send i, Backoff (f i)]) ks) @ es) = callbacks es"
  by (induction ks) auto

lemma success_after_timeouts:
  assumes "k < 10"
  shows "getAndProcessJson 0 (replicate k Timeout @ Load (Some data) # rest) =
     concat (map (\<lambda>i. [Send i, Backoff (2 ^ i * 1000)]) [0 ..< k]) @ [Send k, Callback data]"
  using timeouts_then [of 0 k "Load (Some data) # rest"] assms by simp

lemma ten_timeouts:
  "getAndProcessJson 0 (replicate 10 Timeout @ rest) =
     concat (map (\<lambda>i. [Send i, Backoff (2 ^ i * 1000)]) [0 ..< 9]) @ [Send 9]"
proof -
  have "replicate 10 Timeout @ rest = replicate 9 Timeout @ (Timeout # rest)"
    by (simp add: numeral_eq_Suc replicate_app_Cons_same)
  then show ?thesis
  using timeouts_then [of 0 9 "Timeout # rest"] by simp
qed

text \<open>
  Claim C3. Started with \<open>retryCount = 0\<close>, under any sequence of outcomes: at most 10
  requests are sent; the back-off delays are \<open>2 ^ k * 1000\<close> ms for \<open>k = 0, 1, ...\<close> in this
  order, at most 9 of them; the callback is called at most once. When the first \<open>k < 10\<close>
  requests time out and the next one loads a payload, the trace is request \<open>i\<close> followed by
  a delay of \<open>2 ^ i * 1000\<close> ms for each \<open>i < k\<close>, then request \<open>k\<close> and the callback with
  that payload. When the first 10 requests time out, the trace is the same nine requests
  and delays and then the tenth request alone: no callback, no eleventh request, nothing
  thrown.
\<close>

theorem getAndProcessJson_retry_policy:
  "length (attempts (getAndProcessJson 0 outcomes)) \<le> 10
   \<and> (\<exists>m. m \<le> 9 \<and> backoffs (getAndProcessJson 0 outcomes) = map (\<lambda>k. 2 ^ k * 1000) [0 ..< m])
   \<and> length (callbacks (getAndProcessJson 0 outcomes)) \<le> 1
   \<and> (k < 10 \<longrightarrow>
        getAndProcessJson 0 (replicate k Timeout @ Load (Some data) # rest) =
          concat (map (\<lambda>i. [Send i, Backoff (2 ^ i * 1000)]) [0 ..< k]) @ [Send k, Callback data])
   \<and> getAndProcessJson 0 (replicate 10 Timeout @ rest) =
        concat (map (\<lambda>i. [Send i, Backoff (2 ^ i * 1000)]) [0 ..< 9]) @ [Send 9]"
proof -
  have "\<exists>m. m \<le> 9 \<and> backoffs (getAndProcessJson 0 outcomes) = map (\<lambda>k. 2 ^ k * 1000) [0 ..< m]"
    using backoffs_exact [of 0 outcomes] by auto
  then show ?thesis
    using attempts_le_10 callbacks_at_most_one success_after_timeouts ten_timeouts by blast
qed

text \<open>
  Nine timeouts and then a payload: ten requests, the delays 1 s, 2 s, 4 s, ..., 256 s
  between them, and one callback with the payload of the tenth.
\<close>

theorem getAndProcessJson_retry_policy_witness:
  "getAndProcessJson 0 (replicate 9 Timeout @ [Load (Some (JString ''w.jpg''))]) =
     [Send 0, Backoff 1000, Send 1, Backoff 2000, Send 2, Backoff 4000, Send 3, Backoff 8000,
      Send 4, Backoff 16000, Send 5, Backoff 32000, Send 6, Backoff 64000, Send 7,
      Backoff 128000, Send 8, Backoff 256000, Send 9, Callback (JString ''w.jpg'')]
   \<and> getAndProcessJson 0 (replicate 10 Timeout @ [Load (Some (JString ''w.jpg''))]) =
     [Send 0, Backoff 1000, Send 1, Backoff 2000, Send 2, Backoff 4000, Send 3, Backoff 8000,
      Send 4, Backoff 16000, Send 5, Backoff 32000, Send 6, Backoff 64000, Send 7,
      Backoff 128000, Send 8, Backoff 256000, Send 9]"
  using getAndProcessJson_retry_policy [of "[]" 9 "JString ''w.jpg''" "[]"]
    getAndProcessJson_retry_policy [of "[]" 9 "JString ''w.jpg''" "[Load (Some (JString ''w.jpg''))]"]
  by (simp add: upt_conv_Cons)

subsection \<open>The year of a time value\<close>

text \<open>
  ECMAScript defines the year of \<open>t\<close> as the largest \<open>y\<close> whose first day is not after the
  day of \<open>t\<close>. \<open>YearFromTime\<close> computes it: \<open>YearFromTime_iff\<close>.
\<close>

lemma div_bounds:
  fixes x b :: int
  assumes "0 < b"
  shows "b * (x div b) \<le> x" and "x < b * (x div b) + b"
proof -
  have "b * (x div b) + x mod b = x" by simp
  moreover from assms have "0 \<le> x mod b" "x mod b < b" by simp_all
  ultimately show "b * (x div b) \<le> x" and "x < b * (x div b) + b" by linarith+
qed

lemma DayFromYear_bounds:
  "146097 * (y - 1970) - 506 \<le> 400 * DayFromYear y"
  "400 * DayFromYear y \<le> 146097 * (y - 1970) + 589"
proof -
  define a where "a = (y - 1969) div 4"
  define b where "b = (y - 1901) div 100"
  define c where "c = (y - 1601) div 400"
  have a: "4 * a \<le> y - 1969" "y - 1969 < 4 * a + 4"
    unfolding a_def by (rule div_bounds, simp)+
  have b: "100 * b \<le> y - 1901" "y - 1901 < 100 * b + 100"
    unfolding b_def by (rule div_bounds, simp)+
  have c: "400 * c \<le> y - 1601" "y - 1601 < 400 * c + 400"
    unfolding c_def by (rule div_bounds, simp)+
  have d: "DayFromYear y = 365 * (y - 1970) + a - b + c"
    by (simp add: DayFromYear_def a_def b_def c_def)
  show "146097 * (y - 1970) - 506 \<le> 400 * DayFromYear y"
    unfolding d using a b c by (simp add: algebra_simps)
  show "400 * DayFromYear y \<le> 146097 * (y - 1970) + 589"
    unfolding d using a b c by (simp add: algebra_simps)
qed

lemma YearFromTime_largest:
  "DayFromYear (YearFromTime t) \<le> Day t \<and> Day t < DayFromYear (YearFromTime t + 1)"
proof -
  define d where "d = Day t"
  define q where "q = (d * 400) div 146097"
  have q: "146097 * q \<le> d * 400" "d * 400 < 146097 * q + 146097"
    unfolding q_def by (rule div_bounds, simp)+
  have lo: "DayFromYear (1970 + q - 1) \<le> d"
    using DayFromYear_bounds(2) [of "1970 + q - 1"] q by (simp add: algebra_simps)
  have hi: "d < DayFromYear (1970 + q + 1 + 1)"
    using DayFromYear_bounds(1) [of "1970 + q + 1 + 1"] q by (simp add: algebra_simps)
  have "YearFromTime t =
      (if DayFromYear (1970 + q + 1) \<le> d then 1970 + q + 1
       else if DayFromYear (1970 + q) \<le> d then 1970 + q else 1970 + q - 1)"
    by (simp add: YearFromTime_def Let_def d_def q_def)
  with lo hi show ?thesis
    unfolding d_def [symmetric] by (auto simp add: not_le)
qed

lemma DayFromYear_mono: "DayFromYear y < DayFromYear (y + 1)"
proof -
  have 1: "(y - 1969) div 4 \<le> (y + 1 - 1969) div 4" by (rule zdiv_mono1) simp_all
  have 3: "(y - 1601) div 400 \<le> (y + 1 - 1601) div 400" by (rule zdiv_mono1) simp_all
  have "(y + 1 - 1901) div 100 \<le> (y - 1901 + 100) div 100" by (rule zdiv_mono1) simp_all
  then have 2: "(y + 1 - 1901) div 100 \<le> (y - 1901) div 100 + 1" by simp
  from 1 2 3 show ?thesis
    unfolding DayFromYear_def by (simp add: algebra_simps)
qed

lemma DayFromYear_strict_mono: "y < z \<Longrightarrow> DayFromYear y < DayFromYear z"
proof (induction z rule: int_gr_induct)
  case base
  show ?case by (rule DayFromYear_mono)
next
  case (step i)
  from step.IH DayFromYear_mono [of i] show ?case by simp
qed

lemma YearFromTime_iff: "DayFromYear y \<le> Day t \<longleftrightarrow> y \<le> YearFromTime t"
proof
  assume "DayFromYear y \<le> Day t"
  show "y \<le> YearFromTime t"
  proof (rule ccontr)
    assume "\<not> y \<le> YearFromTime t"
    then have "YearFromTime t + 1 \<le> y" by simp
    then have "DayFromYear (YearFromTime t + 1) \<le> DayFromYear y"
      using DayFromYear_strict_mono [of "YearFromTime t + 1" y] by (cases "YearFromTime t + 1 = y") auto
    with \<open>DayFromYear y \<le> Day t\<close> YearFromTime_largest [of t] show False by simp
  qed
next
  assume "y \<le> YearFromTime t"
  then have "DayFromYear y \<le> DayFromYear (YearFromTime t)"
    using DayFromYear_strict_mono [of y "YearFromTime t"] by (cases "y = YearFromTime t") auto
  with YearFromTime_largest [of t] show "DayFromYear y \<le> Day t" by simp
qed

subsection \<open>Local time fields\<close>

lemma div_mod_step:
  fixes q r b :: int
  assumes "0 \<le> r" "r < b"
  shows "(q * b + r) div b = q" and "(q * b + r) mod b = r"
proof -
  from assms have b: "b \<noteq> 0" by auto
  have "(q * b + r) div b = q + r div b"
    using b by (simp add: add.commute)
  with assms show "(q * b + r) div b = q" by (simp add: div_pos_pos_trivial)
  have "(q * b + r) mod b = r mod b" by (simp add: add.commute)
  with assms show "(q * b + r) mod b = r" by (simp add: mod_pos_pos_trivial)
qed

lemma time_fields:
  assumes "0 \<le> h" "h < 24" "0 \<le> m" "m < 60" "0 \<le> s" "s < 60" "0 \<le> ms" "ms < 1000"
  shows "Day (MakeDate d (MakeTime h m s ms)) = d"
    and "TimeWithinDay (MakeDate d (MakeTime h m s ms)) = MakeTime h m s ms"
    and "HourFromTime (MakeDate d (MakeTime h m s ms)) = h"
    and "MinFromTime (MakeDate d (MakeTime h m s ms)) = m"
    and "SecFromTime (MakeDate d (MakeTime h m s ms)) = s"
    and "msFromTime (MakeDate d (MakeTime h m s ms)) = ms"
proof -
  let ?t = "MakeDate d (MakeTime h m s ms)"
  have t: "?t = d * 86400000 + h * 3600000 + m * 60000 + s * 1000 + ms"
    by (simp add: MakeDate_def MakeTime_def msPerDay_def msPerHour_def msPerMinute_def msPerSecond_def)
  have "?t = (((d * 24 + h) * 60 + m) * 60 + s) * 1000 + ms"
    by (simp add: t algebra_simps)
  with assms have s1: "?t div 1000 = ((d * 24 + h) * 60 + m) * 60 + s" and ms1: "?t mod 1000 = ms"
    using div_mod_step [of ms 1000 "((d * 24 + h) * 60 + m) * 60 + s"] by simp_all
  have "?t = ((d * 24 + h) * 60 + m) * 60000 + (s * 1000 + ms)"
    by (simp add: t algebra_simps)
  moreover from assms have "0 \<le> s * 1000 + ms" "s * 1000 + ms < 60000" by linarith+
  ultimately have m1: "?t div 60000 = (d * 24 + h) * 60 + m"
    using div_mod_step(1) [of "s * 1000 + ms" 60000 "(d * 24 + h) * 60 + m"] by simp
  have "?t = (d * 24 + h) * 3600000 + (m * 60000 + s * 1000 + ms)"
    by (simp add: t algebra_simps)
  moreover from assms have "0 \<le> m * 60000 + s * 1000 + ms" "m * 60000 + s * 1000 + ms < 3600000" by linarith+
  ultimately have h1: "?t div 3600000 = d * 24 + h"
    using div_mod_step(1) [of "m * 60000 + s * 1000 + ms" 3600000 "d * 24 + h"] by simp
  from assms have r4: "0 \<le> MakeTime h m s ms" "MakeTime h m s ms < 86400000"
    unfolding MakeTime_def msPerHour_def msPerMinute_def msPerSecond_def by linarith+
  show "Day ?t = d" and "TimeWithinDay ?t = MakeTime h m s ms"
    using div_mod_step [OF r4, of d]
    by (simp_all add: Day_def TimeWithinDay_def msPerDay_def MakeDate_def)
  show "HourFromTime ?t = h"
    using h1 assms div_mod_step(2) [of h 24 d] by (simp add: HourFromTime_def msPerHour_def)
  show "MinFromTime ?t = m"
    using m1 assms div_mod_step(2) [of m 60 "d * 24 + h"] by (simp add: MinFromTime_def msPerMinute_def)
  show "SecFromTime ?t = s"
    using s1 assms div_mod_step(2) [of s 60 "(d * 24 + h) * 60 + m"] by (simp add: SecFromTime_def msPerSecond_def)
  show "msFromTime ?t = ms" using ms1 by (simp add: msFromTime_def msPerSecond_def)
qed

lemma field_ranges:
  "0 \<le> HourFromTime t" "HourFromTime t < 24" "0 \<le> MinFromTime t" "MinFromTime t < 60"
  "0 \<le> SecFromTime t" "SecFromTime t < 60" "0 \<le> msFromTime t" "msFromTime t < 1000"
  by (simp_all add: HourFromTime_def MinFromTime_def SecFromTime_def msFromTime_def msPerSecond_def)

lemma time_split:
  "MakeDate (Day t) (MakeTime (HourFromTime t) (MinFromTime t) (SecFromTime t) (msFromTime t)) = t"
proof -
  have 1: "t mod 86400000 = 3600000 * (t div 3600000 mod 24) + t mod 3600000"
    using zmod_zmult2_eq [of 24 t 3600000] by simp
  have 2: "t mod 3600000 = 60000 * (t div 60000 mod 60) + t mod 60000"
    using zmod_zmult2_eq [of 60 t 60000] by simp
  have 3: "t mod 60000 = 1000 * (t div 1000 mod 60) + t mod 1000"
    using zmod_zmult2_eq [of 60 t 1000] by simp
  have e: "t div 86400000 * 86400000 + t mod 86400000 = t"
    by (rule div_mult_mod_eq)
  show ?thesis
    unfolding MakeDate_def MakeTime_def Day_def HourFromTime_def MinFromTime_def
        SecFromTime_def msFromTime_def msPerDay_def msPerHour_def msPerMinute_def msPerSecond_def
    using e unfolding 1 2 3 by (simp only: ac_simps)
qed

text \<open>
  Where one offset is in force, the platform's conversions are inverse to each other, and
  a setter changes the one field it names.
\<close>

lemma steady_onD:
  assumes "steady_on z a b c" "a \<le> u" "u < b"
  shows "UTC z u = u - c" and "LocalTime z (u - c) = u" and "LocalTime z (UTC z u) = u"
  using assms by (simp_all add: steady_on_def UTC_def LocalTime_def)

lemma steady_on_constant_zone: "steady_on (constant_zone tza) a b tza"
  by (simp add: steady_on_def constant_zone_def)

lemma steady_on_subset:
  assumes "steady_on z a b c" "a \<le> a'" "b' \<le> b"
  shows "steady_on z a' b' c"
  using assms by (simp add: steady_on_def)

lemma within_hour:
  assumes "0 \<le> m" "m < 60" "0 \<le> s" "s < 60" "0 \<le> ms" "ms < 1000"
  shows "MakeDate day (MakeTime h 0 0 0) \<le> MakeDate day (MakeTime h m s ms)"
    and "MakeDate day (MakeTime h m s ms) < MakeDate day (MakeTime (h + 1) 0 0 0)"
  using assms
  by (simp_all add: MakeDate_def MakeTime_def msPerHour_def msPerMinute_def msPerSecond_def algebra_simps)

lemma local_instant_steady:
  assumes "steady_on z (MakeDate day (MakeTime h 0 0 0)) (MakeDate day (MakeTime (h + 1) 0 0 0)) c"
    and "0 \<le> m" "m < 60" "0 \<le> s" "s < 60" "0 \<le> ms" "ms < 1000"
  shows "local_instant z day h m s ms = MakeDate day (MakeTime h m s ms) - c"
    and "LocalTime z (local_instant z day h m s ms) = MakeDate day (MakeTime h m s ms)"
  unfolding local_instant_def
  by (rule steady_onD [OF assms(1) within_hour [OF assms(2-7)]])+

lemma hour_rollover:
  "MakeDate day (MakeTime h m s ms) = MakeDate (day + h div 24) (MakeTime (h mod 24) m s ms)"
proof -
  have "MakeDate day (MakeTime (24 * q + r) m s ms) = MakeDate (day + q) (MakeTime r m s ms)" for q r
    by (simp add: MakeDate_def MakeTime_def msPerDay_def msPerHour_def algebra_simps)
  from this [of "h div 24" "h mod 24"] show ?thesis by simp
qed

lemma local_fields:
  assumes "LocalTime z d = MakeDate day (MakeTime h m s ms)"
    and "0 \<le> h" "h < 24" "0 \<le> m" "m < 60" "0 \<le> s" "s < 60" "0 \<le> ms" "ms < 1000"
  shows "local_day z d = day" and "getHours z d = h" and "getMinutes z d = m"
    and "getSeconds z d = s" and "getMilliseconds z d = ms"
  using time_fields [OF assms(2-9), of day]
  by (simp_all add: local_day_def getHours_def getMinutes_def getSeconds_def getMilliseconds_def assms(1))

lemma LocalTime_split:
  "LocalTime z now =
     MakeDate (local_day z now) (MakeTime (getHours z now) (getMinutes z now) (getSeconds z now) (getMilliseconds z now))"
  by (simp add: local_day_def getHours_def getMinutes_def getSeconds_def getMilliseconds_def time_split)

lemma getter_ranges:
  "0 \<le> getHours z d" "getHours z d < 24" "0 \<le> getMinutes z d" "getMinutes z d < 60"
  "0 \<le> getSeconds z d" "getSeconds z d < 60" "0 \<le> getMilliseconds z d" "getMilliseconds z d < 1000"
  by (simp_all add: getHours_def getMinutes_def getSeconds_def getMilliseconds_def field_ranges)

lemma setter_local:
  assumes "LocalTime z d = MakeDate day (MakeTime h m s ms)"
    and "0 \<le> h" "h < 24" "0 \<le> m" "m < 60" "0 \<le> s" "s < 60" "0 \<le> ms" "ms < 1000"
  shows "setHours z d h' = local_instant z day h' m s ms"
    and "setMinutes z d m' = local_instant z day h m' s ms"
    and "setSeconds z d s' = local_instant z day h m s' ms"
    and "setMilliseconds z d ms' = local_instant z day h m s ms'"
  using time_fields [OF assms(2-9), of day]
  by (simp_all add: setHours_def setMinutes_def setSeconds_def setMilliseconds_def Let_def
      local_instant_def assms(1))

lemma daily_wake_unrolled:
  assumes h: "0 \<le> h" "h < 24"
    and st: "steady_on z (MakeDate (local_day z now) (MakeTime h 0 0 0))
        (MakeDate (local_day z now) (MakeTime (h + 1) 0 0 0)) c"
  shows "setMilliseconds z (setSeconds z (setMinutes z (setHours z now h) 0) 0) 0 =
     local_instant z (local_day z now) h 0 0 0"
proof -
  let ?D = "local_day z now" and ?M = "getMinutes z now" and ?S = "getSeconds z now"
    and ?ms = "getMilliseconds z now"
  note r = getter_ranges [of z now]
  have 1: "setHours z now h = local_instant z ?D h ?M ?S ?ms"
    using LocalTime_split [of z now] r by (rule setter_local(1))
  have 2: "setMinutes z (local_instant z ?D h ?M ?S ?ms) 0 = local_instant z ?D h 0 ?S ?ms"
    using local_instant_steady(2) [OF st r(3-8)] h r(3-8) by (rule setter_local(2))
  have 3: "setSeconds z (local_instant z ?D h 0 ?S ?ms) 0 = local_instant z ?D h 0 0 ?ms"
    by (rule setter_local(3) [OF local_instant_steady(2) [OF st]]) (use h r in simp_all)
  have 4: "setMilliseconds z (local_instant z ?D h 0 0 ?ms) 0 = local_instant z ?D h 0 0 0"
    by (rule setter_local(4) [OF local_instant_steady(2) [OF st]]) (use h r in simp_all)
  show ?thesis by (simp only: 1 2 3 4)
qed
lemma MonthFromTime_range: "0 \<le> MonthFromTime t \<and> MonthFromTime t < 12"
  by (simp add: MonthFromTime_def Let_def)

lemma MakeDay_next_date:
  "MakeDay (YearFromTime t) (MonthFromTime t) (DateFromTime t + 1) = Day t + 1"
proof -
  from MonthFromTime_range [of t]
  have "MonthFromTime t div 12 = 0" "MonthFromTime t mod 12 = MonthFromTime t"
    by simp_all
  then show ?thesis
    by (simp add: MakeDay_def Let_def DateFromTime_def DayWithinYear_def InLeapYear_def)
qed
lemma setDate_next_day:
  assumes "LocalTime z d = MakeDate day (MakeTime h m s ms)"
    and "0 \<le> h" "h < 24" "0 \<le> m" "m < 60" "0 \<le> s" "s < 60" "0 \<le> ms" "ms < 1000"
  shows "setDate z d (getDate z d + 1) = local_instant z (day + 1) h m s ms"
  using time_fields(1,2) [OF assms(2-9), of day]
  by (simp add: setDate_def getDate_def Let_def MakeDay_next_date local_instant_def assms(1))

lemma daily_wake_eq:
  assumes h: "0 \<le> h" "h < 24"
    and st: "steady_on z (MakeDate (local_day z now) (MakeTime h 0 0 0))
        (MakeDate (local_day z now) (MakeTime (h + 1) 0 0 0)) c"
  shows "setDate z (local_instant z (local_day z now) h 0 0 0)
       (getDate z (local_instant z (local_day z now) h 0 0 0) + 1) =
     local_instant z (local_day z now + 1) h 0 0 0"
  by (rule setDate_next_day [OF local_instant_steady(2) [OF st]]) (use h in simp_all)


lemma scheduleNextMorning_next_eq:
  assumes "steady_on z (MakeDate (local_day z now) (MakeTime 7 0 0 0))
        (MakeDate (local_day z now) (MakeTime 8 0 0 0)) c"
  shows "scheduleNextMorning_next z now =
     (if now \<le> local_instant z (local_day z now) 7 0 0 0
      then local_instant z (local_day z now) 7 0 0 0
      else local_instant z (local_day z now + 1) 7 0 0 0)"
proof -
  from assms have st: "steady_on z (MakeDate (local_day z now) (MakeTime 7 0 0 0))
        (MakeDate (local_day z now) (MakeTime (7 + 1) 0 0 0)) c" by simp
  show ?thesis
    by (simp add: scheduleNextMorning_next_def Let_def daily_wake_unrolled [OF _ _ st]
        daily_wake_eq [OF _ _ st] not_le)
qed

lemma div_less_bound:
  fixes a b c :: int
  assumes "0 < b" "a < c * b"
  shows "a div b < c"
proof (rule ccontr)
  assume "\<not> a div b < c"
  then have "c \<le> a div b" by simp
  with assms(1) have "c * b \<le> a div b * b" by (simp add: mult_right_mono)
  moreover have "0 \<le> a mod b" using assms(1) by simp
  moreover have "a div b * b + a mod b = a" by simp
  ultimately have "c * b \<le> a" by linarith
  with assms(2) show False by simp
qed

lemma jitter_fields:
  assumes "0 \<le> j" "j < 120000"
  shows "MakeTime h 4 0 j = MakeTime h (4 + j div 60000) (j mod 60000 div 1000) (j mod 1000)"
    and "0 \<le> 4 + j div 60000" "4 + j div 60000 < 60"
    and "0 \<le> j mod 60000 div 1000" "j mod 60000 div 1000 < 60"
    and "0 \<le> j mod 1000" "j mod 1000 < 1000"
proof -
  have "j = 60000 * (j div 60000) + j mod 60000" by simp
  moreover have "j mod 60000 = 1000 * (j mod 60000 div 1000) + j mod 60000 mod 1000" by simp
  moreover have "j mod 60000 mod 1000 = j mod 1000"
    by (simp add: mod_mod_cancel)
  ultimately have "j = 60000 * (j div 60000) + 1000 * (j mod 60000 div 1000) + j mod 1000"
    by (simp only: add.assoc)
  then show "MakeTime h 4 0 j = MakeTime h (4 + j div 60000) (j mod 60000 div 1000) (j mod 1000)"
    unfolding MakeTime_def msPerHour_def msPerMinute_def msPerSecond_def by (simp add: algebra_simps)
  from assms have "0 \<le> j div 60000" "j div 60000 < 2"
    by (simp add: pos_imp_zdiv_nonneg_iff, intro div_less_bound, simp_all)
  then show "0 \<le> 4 + j div 60000" "4 + j div 60000 < 60" by simp_all
  have "0 \<le> j mod 60000" "j mod 60000 < 60000" by simp_all
  then show "0 \<le> j mod 60000 div 1000" "j mod 60000 div 1000 < 60"
    by (simp add: pos_imp_zdiv_nonneg_iff, intro div_less_bound, simp_all)
  show "0 \<le> j mod 1000" "j mod 1000 < 1000" by simp_all
qed

subsection \<open>The wallpaper job and the morning job\<close>




text \<open>
  Claim C6 says that the morning job rolls to tomorrow whenever today's 07:00:00.000 is
  not strictly after \<open>now\<close>. \<^verbatim>\<open>scheduleNextMorning\<close> compares with \<^verbatim>\<open><\<close> where
  \<^verbatim>\<open>autoUpdateWallpaper\<close> compares with \<^verbatim>\<open><=\<close>: it rolls to tomorrow only when today's
  07:00:00.000 is strictly before \<open>now\<close>, and at exactly 07:00:00.000 of day \<open>D\<close> the wake
  time is that same instant, not 07:00:00.000 of day \<open>D + 1\<close>; \<^verbatim>\<open>scheduleCall\<close>, reading
  the same corrected time, then calls \<^verbatim>\<open>showMorning\<close> again at once. The zone here has
  the offset \<open>tza\<close> at all times; in a zone whose offset changes the wake time is as
  \<open>scheduleNextMorning_next_eq\<close> says, with the same comparison.
\<close>

theorem scheduleNextMorning_at_seven:
  "scheduleNextMorning_next (constant_zone tza) now =
     (if now \<le> local_instant (constant_zone tza) (local_day (constant_zone tza) now) 7 0 0 0
      then local_instant (constant_zone tza) (local_day (constant_zone tza) now) 7 0 0 0
      else local_instant (constant_zone tza) (local_day (constant_zone tza) now + 1) 7 0 0 0)
   \<and> scheduleNextMorning_next (constant_zone tza) (local_instant (constant_zone tza) D 7 0 0 0) =
       local_instant (constant_zone tza) D 7 0 0 0
   \<and> scheduleNextMorning_next (constant_zone tza) (local_instant (constant_zone tza) D 7 0 0 0) \<noteq>
       local_instant (constant_zone tza) (D + 1) 7 0 0 0
   \<and> scheduleCall (scheduleNextMorning_next (constant_zone tza) (local_instant (constant_zone tza) D 7 0 0 0))
        dateNow (local_instant (constant_zone tza) D 7 0 0 0 - dateNow) = Invoke"
proof -
  let ?z = "constant_zone tza"
  have eq: "scheduleNextMorning_next ?z n =
      (if n \<le> local_instant ?z (local_day ?z n) 7 0 0 0
       then local_instant ?z (local_day ?z n) 7 0 0 0
       else local_instant ?z (local_day ?z n + 1) 7 0 0 0)" for n
    by (rule scheduleNextMorning_next_eq [OF steady_on_constant_zone])
  have "LocalTime ?z (local_instant ?z D 7 0 0 0) = MakeDate D (MakeTime 7 0 0 0)"
    by (simp add: local_instant_def LocalTime_def UTC_def constant_zone_def)
  then have "local_day ?z (local_instant ?z D 7 0 0 0) = D"
    by (rule local_fields(1)) simp_all
  then have 1: "scheduleNextMorning_next ?z (local_instant ?z D 7 0 0 0) = local_instant ?z D 7 0 0 0"
    by (simp add: eq)
  have 2: "local_instant ?z D 7 0 0 0 \<noteq> local_instant ?z (D + 1) 7 0 0 0"
    by (simp add: local_instant_def UTC_def constant_zone_def MakeDate_def msPerDay_def)
  have 3: "scheduleCall (local_instant ?z D 7 0 0 0) dateNow (local_instant ?z D 7 0 0 0 - dateNow) = Invoke"
    by (simp add: scheduleCall_def getCorrectedDatetime_def)
  from 1 2 3 show ?thesis
    using eq [of now] by simp
qed

subsection \<open>The product of doubles\<close>

text \<open>
  Rounding to 53 bits moves a value by at most \<open>2 ^ - 53\<close> of it (\<open>round53_error\<close>), and
  does not carry it past a double that it is below the midpoint to (\<open>round53_le\<close>).
\<close>

lemma bit_length_bounds:
  "0 < n \<Longrightarrow> 2 ^ (bit_length n - 1) \<le> n \<and> n < 2 ^ bit_length n"
proof (induction n rule: bit_length.induct)
  case (1 n)
  show ?case
  proof (cases "n = 1")
    case True
    then show ?thesis by (simp add: bit_length.simps [of 1] bit_length.simps [of 0])
  next
    case False
    with 1 have pos: "0 < n div 2" by simp
    with 1 have IH: "2 ^ (bit_length (n div 2) - 1) \<le> n div 2" "n div 2 < 2 ^ bit_length (n div 2)"
      by simp_all
    have b: "bit_length n = Suc (bit_length (n div 2))"
      using 1(2) by (simp add: bit_length.simps [of n])
    have p: "0 < bit_length (n div 2)"
      using pos by (simp add: bit_length.simps [of "n div 2"])
    then have e: "(2::int) ^ bit_length (n div 2) = 2 * 2 ^ (bit_length (n div 2) - 1)"
      by (cases "bit_length (n div 2)") simp_all
    have n: "2 * (n div 2) \<le> n" "n < 2 * (n div 2) + 2" by simp_all
    from IH n e show ?thesis
      unfolding b by simp
  qed
qed

lemma bit_length_nonpos: "n \<le> 0 \<Longrightarrow> bit_length n = 0"
  by (simp add: bit_length.simps [of n])

lemma round_half_even_error:
  "2 * \<bar>round_half_even n s * 2 ^ s - n\<bar> \<le> 2 ^ s"
proof -
  define P :: int where "P = 2 ^ s"
  define q where "q = n div P"
  define r where "r = n mod P"
  have P: "0 < P" by (simp add: P_def)
  have n: "n = q * P + r" by (simp add: q_def r_def)
  have r: "0 \<le> r" "r < P" using P by (simp_all add: r_def)
  have "round_half_even n s = q \<and> 2 * r \<le> P \<or> round_half_even n s = q + 1 \<and> P \<le> 2 * r"
    by (auto simp add: round_half_even_def Let_def P_def [symmetric] q_def [symmetric] r_def [symmetric])
  then show ?thesis
    unfolding P_def [symmetric] using r n by (auto simp add: algebra_simps)
qed

lemma round_half_even_le:
  assumes "2 * n < (2 * K + 1) * 2 ^ s"
  shows "round_half_even n s \<le> K"
proof -
  define P :: int where "P = 2 ^ s"
  define q where "q = n div P"
  define r where "r = n mod P"
  have P: "0 < P" by (simp add: P_def)
  have n: "n = q * P + r" by (simp add: q_def r_def)
  have r: "0 \<le> r" "r < P" using P by (simp_all add: r_def)
  from assms have a: "2 * (q * P + r) < (2 * K + 1) * P"
    unfolding P_def [symmetric] n .
  have "(2 * q) * P < (2 * K + 1) * P" using a r by (simp add: algebra_simps)
  then have qK: "2 * q < 2 * K + 1" using P by (simp only: mult_less_cancel_right)
  show ?thesis
  proof (cases "q = K")
    case True
    with a have "2 * r < P" by (simp add: algebra_simps)
    then show ?thesis
      by (simp add: round_half_even_def Let_def P_def [symmetric] q_def [symmetric] r_def [symmetric] True)
  next
    case False
    with qK have "q + 1 \<le> K" by simp
    then show ?thesis
      by (simp add: round_half_even_def Let_def P_def [symmetric] q_def [symmetric] r_def [symmetric])
  qed
qed

lemma round_half_even_nonneg: "0 \<le> n \<Longrightarrow> 0 \<le> round_half_even n s"
  by (simp add: round_half_even_def Let_def pos_imp_zdiv_nonneg_iff)

lemma of_int_less_half:
  fixes a K :: int
  assumes "(of_int a :: real) < of_int K + 1 / 2"
  shows "a \<le> K"
proof (rule ccontr)
  assume "\<not> a \<le> K"
  then have "K + 1 \<le> a" by simp
  then have "(of_int (K + 1) :: real) \<le> of_int a" by (simp only: of_int_le_iff)
  with assms show False by simp
qed

lemma powi_shift:
  "(2::real) powi e = 2 powi (e - g) * 2 powi g"
  using power_int_add [of "2::real" "e - g" g] by simp

lemma powi_neg_nat: "(2::real) powi (- int k) = 1 / 2 ^ k"
  by (simp add: power_int_minus field_simps)

lemma double_value_round53_exact:
  "bit_length n \<le> 53 \<Longrightarrow> round53 (n, e) = (n, e)"
  by (simp add: round53_def)

lemma double_value_round53_rounded:
  "\<not> bit_length n \<le> 53 \<Longrightarrow>
   double_value (round53 (n, e)) =
     of_int (round_half_even n (bit_length n - 53) * 2 ^ (bit_length n - 53)) * 2 powi e"
  using power_int_add [of "2::real" e "int (bit_length n - 53)"]
  by (simp add: round53_def double_value_def algebra_simps del: of_nat_diff)

lemma bit_length_large:
  assumes "\<not> bit_length n \<le> 53"
  shows "2 ^ (bit_length n - 53) * 2 ^ 52 \<le> n" and "n < 2 ^ (bit_length n - 53) * 2 ^ 53" and "0 < n"
proof -
  show pos: "0 < n"
    using assms bit_length_nonpos [of n] by (cases "0 < n") simp_all
  have "bit_length n - 1 = (bit_length n - 53) + 52" "bit_length n = (bit_length n - 53) + 53"
    using assms by simp_all
  with bit_length_bounds [OF pos]
  have "2 ^ ((bit_length n - 53) + 52) \<le> n" "n < 2 ^ ((bit_length n - 53) + 53)"
    by simp_all
  then show "2 ^ (bit_length n - 53) * 2 ^ 52 \<le> n" and "n < 2 ^ (bit_length n - 53) * 2 ^ 53"
    by (simp_all only: power_add)
qed

lemma bit_length_small:
  assumes "bit_length n \<le> 53"
  shows "n < 2 ^ 53"
proof (cases "0 < n")
  case True
  from bit_length_bounds [OF True] have "n < 2 ^ bit_length n" by simp
  also have "(2::int) ^ bit_length n \<le> 2 ^ 53"
    using assms by (intro power_increasing) simp_all
  finally show ?thesis .
next
  case False
  then show ?thesis by simp
qed

lemma round53_error:
  assumes "0 \<le> n"
  shows "\<bar>double_value (round53 (n, e)) - double_value (n, e)\<bar> * 2 ^ 53 \<le> double_value (n, e)"
proof (cases "bit_length n \<le> 53")
  case True
  with assms show ?thesis
    by (simp add: double_value_round53_exact double_value_def)
next
  case False
  define s where "s = bit_length n - 53"
  define M where "M = round_half_even n s"
  have e: "2 * \<bar>M * 2 ^ s - n\<bar> \<le> 2 ^ s"
    unfolding M_def by (rule round_half_even_error)
  have lo: "2 ^ s * 2 ^ 52 \<le> n"
    unfolding s_def by (rule bit_length_large(1) [OF False])
  have "2 * (\<bar>M * 2 ^ s - n\<bar> * 2 ^ 52) \<le> 2 ^ s * 2 ^ 52"
    using e by simp
  with lo have "\<bar>M * 2 ^ s - n\<bar> * 2 ^ 53 \<le> n" by simp
  then have "(of_int (\<bar>M * 2 ^ s - n\<bar> * 2 ^ 53) :: real) \<le> of_int n"
    by (simp only: of_int_le_iff)
  then have "\<bar>of_int (M * 2 ^ s) - of_int n\<bar> * 2 ^ 53 \<le> (of_int n :: real)"
    by simp
  then have "\<bar>of_int (M * 2 ^ s) - of_int n\<bar> * 2 ^ 53 * 2 powi e \<le> (of_int n :: real) * 2 powi e"
    by (intro mult_right_mono) simp_all
  moreover have "\<bar>double_value (round53 (n, e)) - double_value (n, e)\<bar> =
      \<bar>of_int (M * 2 ^ s) - of_int n\<bar> * 2 powi e"
    unfolding double_value_round53_rounded [OF False] s_def [symmetric] M_def [symmetric]
    by (simp add: double_value_def abs_mult left_diff_distrib [symmetric] del: of_int_mult of_int_power)
  ultimately show ?thesis
    by (simp add: double_value_def mult.assoc mult.commute [of "2 ^ 53"])
qed

lemma scale_bound:
  fixes A x c n :: real
  assumes "0 \<le> x" "0 \<le> c" "2 \<le> A * x" "A * c \<le> n"
  shows "2 * c \<le> n * x"
proof -
  have "(A * c) * x \<le> n * x" using assms(1,4) by (rule mult_right_mono [rotated])
  moreover have "2 * c \<le> (A * x) * c" using assms(2,3) by (rule mult_right_mono [rotated])
  moreover have "(A * c) * x = (A * x) * c" by (simp only: ac_simps)
  ultimately show ?thesis by linarith
qed

lemma round53_le:
  fixes n e K g :: int
  assumes n: "0 \<le> n" and K: "2 ^ 52 \<le> K" "K < 2 ^ 53"
    and lt: "double_value (n, e) < (of_int K + 1 / 2) * 2 powi g"
  shows "double_value (round53 (n, e)) \<le> of_int K * 2 powi g"
proof -
  have "of_int n * 2 powi (e - g) * 2 powi g < (of_int K + 1 / 2) * (2::real) powi g"
    using lt powi_shift [of e g] by (simp add: double_value_def mult.assoc)
  then have lt': "of_int n * 2 powi (e - g) < (of_int K + 1 / 2 :: real)"
    by (simp only: mult_less_cancel_right_pos zero_less_power_int zero_less_numeral)
  have Kr: "(2::real) ^ 52 \<le> of_int K" "(of_int K :: real) < 2 ^ 53"
  proof -
    from K(1) have "(of_int (2 ^ 52) :: real) \<le> of_int K" by (simp only: of_int_le_iff)
    then show "(2::real) ^ 52 \<le> of_int K" by simp
    from K(2) have "(of_int K :: real) < of_int (2 ^ 53)" by (simp only: of_int_less_iff)
    then show "(of_int K :: real) < 2 ^ 53" by simp
  qed
  have goal: "double_value (m, e') \<le> of_int K * 2 powi g"
    if "of_int m * 2 powi (e' - g) \<le> (of_int K :: real)" for m e'
  proof -
    from that have "of_int m * 2 powi (e' - g) * 2 powi g \<le> (of_int K :: real) * 2 powi g"
      by (intro mult_right_mono) simp_all
    then show ?thesis
      using powi_shift [of e' g] by (simp add: double_value_def mult.assoc)
  qed
  show ?thesis
  proof (cases "bit_length n \<le> 53")
    case True
    have "of_int n * 2 powi (e - g) \<le> (of_int K :: real)"
    proof (cases "g \<le> e")
      case True
      then have "(2::real) powi (e - g) = 2 ^ nat (e - g)"
        by (simp add: power_int_def)
      with lt' have "(of_int (n * 2 ^ nat (e - g)) :: real) < of_int K + 1 / 2" by simp
      then have "n * 2 ^ nat (e - g) \<le> K" by (rule of_int_less_half)
      then have "(of_int (n * 2 ^ nat (e - g)) :: real) \<le> of_int K" by (simp only: of_int_le_iff)
      then show ?thesis
        using \<open>(2::real) powi (e - g) = 2 ^ nat (e - g)\<close> by simp
    next
      case False
      then have "(2::real) powi (e - g) \<le> 2 powi (- 1)"
        by (intro power_int_increasing) simp_all
      then have h: "(2::real) powi (e - g) \<le> 1 / 2" by (simp add: power_int_minus)
      from bit_length_small [OF True] have "(of_int n :: real) < of_int (2 ^ 53)"
        by (simp only: of_int_less_iff)
      then have n53: "(of_int n :: real) < 2 ^ 53" by simp
      have "of_int n * 2 powi (e - g) \<le> (of_int n :: real) * (1 / 2)"
        using n h by (intro mult_left_mono) simp_all
      with n53 Kr show ?thesis by simp
    qed
    then show ?thesis
      by (simp add: double_value_round53_exact [OF True] goal)
  next
    case False
    define s where "s = bit_length n - 53"
    define M where "M = round_half_even n s"
    have r: "round53 (n, e) = (M, e + int s)"
      using False by (simp add: round53_def s_def M_def)
    have lo: "2 ^ s * 2 ^ 52 \<le> n" and hi: "n < 2 ^ s * 2 ^ 53"
      unfolding s_def by (rule bit_length_large [OF False])+
    have u: "e + int s - g \<le> 0"
    proof (rule ccontr)
      assume "\<not> e + int s - g \<le> 0"
      then have "1 \<le> e + int s - g" by simp
      then have "(2::real) powi 1 \<le> 2 powi (e + int s - g)"
        by (intro power_int_increasing) simp_all
      moreover have "(2::real) powi (e + int s - g) = 2 ^ s * 2 powi (e - g)"
        using power_int_add [of "2::real" "int s" "e - g"] by (simp add: algebra_simps)
      ultimately have ax: "2 \<le> (2::real) ^ s * 2 powi (e - g)" by simp
      have "(of_int (2 ^ s * 2 ^ 52) :: real) \<le> of_int n"
        using lo by (simp only: of_int_le_iff)
      then have "(2::real) ^ s * 2 ^ 52 \<le> of_int n" by simp
      with ax have "2 * (2::real) ^ 52 \<le> of_int n * 2 powi (e - g)"
        by (intro scale_bound [where A = "2 ^ s"]) simp_all
      then have "(2::real) ^ 53 \<le> of_int n * 2 powi (e - g)"
        by simp
      with lt' Kr show False by simp
    qed
    define t where "t = nat (g - e - int s)"
    have t: "e + int s - g = - int t"
      using u by (simp add: t_def)
    have MK: "M \<le> K * 2 ^ t"
    proof (cases "t = 0")
      case True
      with t have "e - g = - int s" by simp
      with lt' have "of_int n * (1 / 2 ^ s) < (of_int K + 1 / 2 :: real)"
        by (simp add: powi_neg_nat)
      then have "of_int n < (of_int K + 1 / 2 :: real) * 2 ^ s"
        by (simp add: field_simps)
      then have "(of_int (2 * n) :: real) < of_int ((2 * K + 1) * 2 ^ s)"
        by (simp add: algebra_simps)
      then have "2 * n < (2 * K + 1) * 2 ^ s" by (simp only: of_int_less_iff)
      then have "M \<le> K" unfolding M_def by (rule round_half_even_le)
      with True show ?thesis by simp
    next
      case False
      from hi have "2 * n < (2 * 2 ^ 53) * 2 ^ s" by simp
      also have "(2 * 2 ^ 53) * 2 ^ s < (2 * 2 ^ 53 + 1) * (2::int) ^ s"
        by (intro mult_strict_right_mono) simp_all
      finally have "2 * n < (2 * 2 ^ 53 + 1) * 2 ^ s" .
      then have "M \<le> 2 ^ 53" unfolding M_def by (rule round_half_even_le)
      moreover have "(2::int) ^ 1 \<le> 2 ^ t"
        using False by (intro power_increasing) simp_all
      then have "2 ^ 52 * (2::int) \<le> K * 2 ^ t"
        using K(1) by (intro mult_mono) simp_all
      ultimately show ?thesis by simp
    qed
    then have "(of_int M :: real) \<le> of_int (K * 2 ^ t)" by (simp only: of_int_le_iff)
    then have "(of_int M :: real) \<le> of_int K * 2 ^ t" by simp
    then have "of_int M * 2 powi (e + int s - g) \<le> (of_int K :: real)"
      unfolding t powi_neg_nat by (simp add: field_simps)
    then show ?thesis
      unfolding r by (rule goal)
  qed
qed

lemma ToInteger_floor: "ToInteger d = \<lfloor>double_value d\<rfloor>"
proof (cases d)
  case (Pair m e)
  show ?thesis
  proof (cases "0 \<le> e")
    case True
    then have "(2::real) powi e = of_int (2 ^ nat e)" by (simp add: power_int_def)
    then have "double_value d = of_int (m * 2 ^ nat e)" by (simp add: Pair double_value_def)
    then have "\<lfloor>double_value d\<rfloor> = m * 2 ^ nat e" by (simp only: floor_of_int)
    with True show ?thesis by (simp add: Pair ToInteger_def)
  next
    case False
    then have "(2::real) powi e = 1 / of_int (2 ^ nat (- e))"
      using powi_neg_nat [of "nat (- e)"] by simp
    then have "double_value d = of_int m / of_int (2 ^ nat (- e))" by (simp add: Pair double_value_def)
    then have "\<lfloor>double_value d\<rfloor> = m div 2 ^ nat (- e)" by (simp only: floor_divide_of_int_eq)
    with False show ?thesis by (simp add: Pair ToInteger_def)
  qed
qed

lemma below_one:
  assumes "0 \<le> m" "m < 2 ^ 53" "double_value (m, e) < 1"
  shows "double_value (m, e) \<le> (2 ^ 53 - 1) * 2 powi (- 53)"
proof -
  show ?thesis
  proof (cases "- 53 \<le> e")
    case True
    have "(2::real) powi e = 2 powi (e + 53) * 2 powi (- 53)"
      using powi_shift [of e "- 53"] by simp
    moreover from True have "(2::real) powi (e + 53) = of_int (2 ^ nat (e + 53))"
      by (simp add: power_int_def)
    ultimately have v: "double_value (m, e) = of_int (m * 2 ^ nat (e + 53)) * 2 powi (- 53)"
      by (simp add: double_value_def)
    with assms(3) have "(of_int (m * 2 ^ nat (e + 53)) :: real) * 2 powi (- 53) < 1" by simp
    then have "(of_int (m * 2 ^ nat (e + 53)) :: real) < of_int (2 ^ 53)"
      by (simp add: power_int_minus field_simps)
    then have "m * 2 ^ nat (e + 53) < 2 ^ 53" by (simp only: of_int_less_iff)
    then have "m * 2 ^ nat (e + 53) \<le> 2 ^ 53 - 1" by simp
    then have "(of_int (m * 2 ^ nat (e + 53)) :: real) \<le> of_int (2 ^ 53 - 1)"
      by (simp only: of_int_le_iff)
    then have "(of_int (m * 2 ^ nat (e + 53)) :: real) * 2 powi (- 53) \<le> of_int (2 ^ 53 - 1) * 2 powi (- 53)"
      by (intro mult_right_mono) simp_all
    then show ?thesis unfolding v by simp
  next
    case False
    then have "(2::real) powi e \<le> 2 powi (- 54)"
      by (intro power_int_increasing) simp_all
    moreover from assms(2) have "(of_int m :: real) < of_int (2 ^ 53)" by (simp only: of_int_less_iff)
    then have "(of_int m :: real) \<le> 2 ^ 53" by simp
    moreover have "0 \<le> (of_int m :: real)" using assms(1) by simp
    ultimately have "of_int m * (2::real) powi e \<le> 2 ^ 53 * 2 powi (- 54)"
      by (intro mult_mono) simp_all
    then show ?thesis
      by (simp add: double_value_def power_int_minus)
  qed
qed

lemma double_value_times: "double_value (m * c, e) = of_int c * double_value (m, e)"
  by (simp add: double_value_def)

lemma round53_nonneg:
  assumes "0 \<le> n"
  shows "0 \<le> fst (round53 (n, e))"
  using assms by (simp add: round53_def round_half_even_nonneg)

lemma double_value_nonneg: "0 \<le> fst d \<Longrightarrow> 0 \<le> double_value d"
  by (cases d) (simp add: double_value_def)

lemma double_times_nonneg:
  assumes "0 \<le> fst d" "0 \<le> c"
  shows "0 \<le> fst (double_times d c)"
  using assms by (cases d) (simp add: double_times_def round53_nonneg)

lemma double_times_error:
  assumes "0 \<le> fst d" "0 \<le> c"
  shows "\<bar>double_value (double_times d c) - of_int c * double_value d\<bar> * 2 ^ 53
      \<le> of_int c * double_value d"
proof (cases d)
  case (Pair m e)
  with assms have "0 \<le> m * c" by simp
  from round53_error [OF this, of e] show ?thesis
    by (simp add: Pair double_times_def double_value_times)
qed

lemma double_times_le:
  assumes "0 \<le> fst d" "0 \<le> c" "2 ^ 52 \<le> K" "K < 2 ^ 53"
    and "of_int c * double_value d < (of_int K + 1 / 2) * 2 powi g"
  shows "double_value (double_times d c) \<le> of_int K * 2 powi g"
proof (cases d)
  case (Pair m e)
  with assms have "0 \<le> m * c" by simp
  from this assms(3,4) have "double_value (round53 (m * c, e)) \<le> of_int K * 2 powi g"
    by (rule round53_le) (use assms(5) in \<open>simp add: Pair double_value_times\<close>)
  then show ?thesis by (simp add: Pair double_times_def)
qed

lemma abs_times_bound:
  fixes a b P :: real
  assumes "\<bar>a\<bar> * P \<le> b" "0 < P"
  shows "- b \<le> a * P \<and> a * P \<le> b"
proof -
  have "\<bar>a * P\<bar> = \<bar>a\<bar> * P" using assms(2) by (simp add: abs_mult)
  with assms(1) have "\<bar>a * P\<bar> \<le> b" by simp
  then show ?thesis by linarith
qed

lemma product_values:
  assumes "is_random random"
  defines "v0 \<equiv> double_value random"
    and "v1 \<equiv> double_value (double_times random 2)"
    and "v2 \<equiv> double_value (double_times (double_times random 2) 60)"
    and "v3 \<equiv> double_value (double_times (double_times (double_times random 2) 60) 1000)"
  shows "0 \<le> v0" "v0 < 1" "0 \<le> v3" "v3 \<le> 120000 - 1 / 2 ^ 36"
    and "\<bar>v3 - 120000 * v0\<bar> < 1 / 2 ^ 34"
proof -
  obtain m e where r: "random = (m, e)" by (cases random)
  from assms(1) have m: "0 \<le> m" "m < 2 ^ 53" and lt: "double_value (m, e) < 1"
    by (simp_all add: is_random_def r)
  have n0: "0 \<le> fst random" using m by (simp add: r)
  have n1: "0 \<le> fst (double_times random 2)"
    using n0 by (rule double_times_nonneg) simp
  have n2: "0 \<le> fst (double_times (double_times random 2) 60)"
    using n1 by (rule double_times_nonneg) simp
  have n3: "0 \<le> fst (double_times (double_times (double_times random 2) 60) 1000)"
    using n2 by (rule double_times_nonneg) simp
  show p0: "0 \<le> v0" unfolding v0_def using n0 by (rule double_value_nonneg)
  have p1: "0 \<le> v1" unfolding v1_def using n1 by (rule double_value_nonneg)
  have p2: "0 \<le> v2" unfolding v2_def using n2 by (rule double_value_nonneg)
  show p3: "0 \<le> v3" unfolding v3_def using n3 by (rule double_value_nonneg)
  show u0': "v0 < 1" unfolding v0_def r by (rule lt)
  have u0: "v0 \<le> 1 - 1 / 2 ^ 53"
    using below_one [OF m lt] by (simp add: v0_def r power_int_minus field_simps)
  have "v1 \<le> of_int (2 ^ 53 - 1) * 2 powi (- 52)"
    unfolding v1_def using n0
    by (rule double_times_le) (use u0 in \<open>simp_all add: v0_def [symmetric] power_int_minus field_simps\<close>)
  then have u1: "v1 \<le> 2 - 1 / 2 ^ 52"
    by (simp add: power_int_minus field_simps)
  have "v2 \<le> of_int (15 * 2 ^ 49 - 1) * 2 powi (- 46)"
    unfolding v2_def using n1
    by (rule double_times_le) (use u1 in \<open>simp_all add: v1_def [symmetric] power_int_minus field_simps\<close>)
  then have u2: "v2 \<le> 120 - 1 / 2 ^ 46"
    by (simp add: power_int_minus field_simps)
  have "v3 \<le> of_int (1875 * 2 ^ 42 - 1) * 2 powi (- 36)"
    unfolding v3_def using n2
    by (rule double_times_le) (use u2 in \<open>simp_all add: v2_def [symmetric] power_int_minus field_simps\<close>)
  then show u3: "v3 \<le> 120000 - 1 / 2 ^ 36"
    by (simp add: power_int_minus field_simps)
  have e1: "\<bar>v1 - 2 * v0\<bar> * 2 ^ 53 \<le> 2 * v0"
    using double_times_error [OF n0, of 2] by (simp add: v0_def v1_def)
  have e2: "\<bar>v2 - 60 * v1\<bar> * 2 ^ 53 \<le> 60 * v1"
    using double_times_error [OF n1, of 60] by (simp add: v1_def v2_def)
  have e3: "\<bar>v3 - 1000 * v2\<bar> * 2 ^ 53 \<le> 1000 * v2"
    using double_times_error [OF n2, of 1000] by (simp add: v2_def v3_def)
  define P :: real where "P = 2 ^ 53"
  have P: "0 < P" by (simp add: P_def)
  have b1: "- 2 \<le> v1 * P - 2 * (v0 * P)" "v1 * P - 2 * (v0 * P) \<le> 2"
    using abs_times_bound [OF e1 [folded P_def] P] u0 by (simp_all add: algebra_simps)
  have b2: "- 120 \<le> v2 * P - 60 * (v1 * P)" "v2 * P - 60 * (v1 * P) \<le> 120"
    using abs_times_bound [OF e2 [folded P_def] P] u1 by (simp_all add: algebra_simps)
  have b3: "- 120000 \<le> v3 * P - 1000 * (v2 * P)" "v3 * P - 1000 * (v2 * P) \<le> 120000"
    using abs_times_bound [OF e3 [folded P_def] P] u2 by (simp_all add: algebra_simps)
  have "- 360000 \<le> (v3 - 120000 * v0) * P" "(v3 - 120000 * v0) * P \<le> 360000"
    using b1 b2 b3 by (simp_all add: algebra_simps)
  then have "\<bar>(v3 - 120000 * v0) * P\<bar> \<le> 360000"
    by linarith
  moreover define y where "y = \<bar>v3 - 120000 * v0\<bar>"
  moreover have "\<bar>(v3 - 120000 * v0) * P\<bar> = y * P"
    using P by (simp add: abs_mult y_def)
  ultimately have "y * 2 ^ 53 \<le> 360000" by (simp add: P_def)
  then have "y < 1 / 2 ^ 34" by simp
  then show "\<bar>v3 - 120000 * v0\<bar> < 1 / 2 ^ 34"
    by (simp only: y_def)
qed

subsection \<open>The weather job\<close>

lemma local_instant_jitter:
  assumes "0 \<le> j" "j < 120000"
  shows "local_instant z day h 4 0 j =
     local_instant z day h (4 + j div 60000) (j mod 60000 div 1000) (j mod 1000)"
  by (simp add: local_instant_def jitter_fields(1) [OF assms])

lemma weather_target:
  assumes st: "steady_on z (MakeDate (local_day z now) (MakeTime (getHours z now) 0 0 0))
        (MakeDate (local_day z now) (MakeTime (getHours z now + 1) 0 0 0)) c"
    and j: "0 \<le> j" "j < 120000"
  shows "setMilliseconds z (setSeconds z (setMinutes z now 4) 0) j =
       local_instant z (local_day z now) (getHours z now) 4 0 j"
    and "LocalTime z (local_instant z (local_day z now) (getHours z now) 4 0 j) =
       MakeDate (local_day z now)
         (MakeTime (getHours z now) (4 + j div 60000) (j mod 60000 div 1000) (j mod 1000))"
proof -
  let ?D = "local_day z now" and ?H = "getHours z now" and ?M = "getMinutes z now"
    and ?S = "getSeconds z now" and ?ms = "getMilliseconds z now"
  note r = getter_ranges [of z now]
  have 1: "setMinutes z now 4 = local_instant z ?D ?H 4 ?S ?ms"
    using LocalTime_split [of z now] r by (rule setter_local(2))
  have 2: "setSeconds z (local_instant z ?D ?H 4 ?S ?ms) 0 = local_instant z ?D ?H 4 0 ?ms"
    by (rule setter_local(3) [OF local_instant_steady(2) [OF st]]) (use r in simp_all)
  have 3: "setMilliseconds z (local_instant z ?D ?H 4 0 ?ms) j = local_instant z ?D ?H 4 0 j"
    by (rule setter_local(4) [OF local_instant_steady(2) [OF st]]) (use r in simp_all)
  show "setMilliseconds z (setSeconds z (setMinutes z now 4) 0) j = local_instant z ?D ?H 4 0 j"
    by (simp only: 1 2 3)
  show "LocalTime z (local_instant z ?D ?H 4 0 j) =
       MakeDate ?D (MakeTime ?H (4 + j div 60000) (j mod 60000 div 1000) (j mod 1000))"
    unfolding local_instant_jitter [OF j]
    by (rule local_instant_steady(2) [OF st jitter_fields(2-7) [OF j]])
qed

lemma autoUpdateWeather_next_eq:
  assumes st: "steady_on z (MakeDate (local_day z now) (MakeTime (getHours z now) 0 0 0))
        (MakeDate (local_day z now) (MakeTime (getHours z now + 1) 0 0 0)) c"
    and j: "0 \<le> jitter random" "jitter random < 120000"
  shows "autoUpdateWeather_next z now random =
     (if local_instant z (local_day z now) (getHours z now) 4 0 (jitter random) \<le> now
         \<or> 4 \<le> getMinutes z now
      then local_instant z (local_day z now) (getHours z now + 1) 4 0 (jitter random)
      else local_instant z (local_day z now) (getHours z now) 4 0 (jitter random))"
proof -
  let ?D = "local_day z now" and ?H = "getHours z now" and ?j = "jitter random"
  let ?target = "local_instant z ?D ?H 4 0 ?j"
  note r = getter_ranges(1,2) [of z now]
  note f = jitter_fields(2-7) [OF j]
  note L = weather_target(2) [OF st j]
  have hour: "getHours z ?target = ?H"
    using L r f by (rule local_fields(2))
  have "4 \<le> getMinutes z now" if "?target = now"
  proof -
    have "getMinutes z ?target = 4 + ?j div 60000"
      using L r f by (rule local_fields(3))
    with that f(1) show ?thesis
      using pos_imp_zdiv_nonneg_iff [of 60000 ?j] j(1) by simp
  qed
  then have c: "?target < now \<or> getHours z ?target = ?H \<and> 4 \<le> getMinutes z now
      \<longleftrightarrow> ?target \<le> now \<or> 4 \<le> getMinutes z now"
    unfolding hour by (auto simp add: less_le)
  have adv: "setHours z ?target (?H + 1) = local_instant z ?D (?H + 1) 4 0 ?j"
    unfolding local_instant_jitter [OF j, of z ?D "?H + 1"]
    using L r f by (rule setter_local(1))
  show ?thesis
    unfolding autoUpdateWeather_next_def Let_def weather_target(1) [OF st j] c
    by (simp add: hour adv)
qed

lemma getHours_advanced:
  assumes st: "steady_on z (MakeDate D (MakeTime (H + 1) 0 0 0)) (MakeDate D (MakeTime (H + 1 + 1) 0 0 0)) c"
    and j: "0 \<le> j" "j < 120000"
  shows "getHours z (local_instant z D (H + 1) 4 0 j) = (H + 1) mod 24"
proof -
  note f = jitter_fields(2-7) [OF j]
  have "LocalTime z (local_instant z D (H + 1) 4 0 j) =
      MakeDate D (MakeTime (H + 1) (4 + j div 60000) (j mod 60000 div 1000) (j mod 1000))"
    unfolding local_instant_jitter [OF j]
    by (rule local_instant_steady(2) [OF st f])
  also have "\<dots> = MakeDate (D + (H + 1) div 24)
      (MakeTime ((H + 1) mod 24) (4 + j div 60000) (j mod 60000 div 1000) (j mod 1000))"
    by (rule hour_rollover)
  finally show ?thesis
    by (rule local_fields(2)) (use f in simp_all)
qed

lemma jitter_range:
  assumes "is_random random"
  shows "0 \<le> jitter random" and "jitter random < 120000"
proof -
  note v = product_values(3,4) [OF assms]
  from v(1) show "0 \<le> jitter random"
    by (simp add: jitter_def ToInteger_floor)
  from v(2) have "double_value (double_times (double_times (double_times random 2) 60) 1000) < 120000"
    by simp
  then show "jitter random < 120000"
    by (simp add: jitter_def ToInteger_floor floor_less_iff)
qed

lemma jitter_near_uniform:
  assumes "is_random random"
  shows "jitter random = k \<Longrightarrow>
      of_int k - 1 / 2 ^ 34 < 120000 * double_value random
      \<and> 120000 * double_value random < of_int k + 1 + 1 / 2 ^ 34"
    and "of_int k + 1 / 2 ^ 34 \<le> 120000 * double_value random \<Longrightarrow>
      120000 * double_value random \<le> of_int k + 1 - 1 / 2 ^ 34 \<Longrightarrow> jitter random = k"
proof -
  define v3 where "v3 = double_value (double_times (double_times (double_times random 2) 60) 1000)"
  define v0 where "v0 = double_value random"
  have d: "\<bar>v3 - 120000 * v0\<bar> < 1 / 2 ^ 34"
    unfolding v3_def v0_def by (rule product_values(5) [OF assms])
  have j: "jitter random = \<lfloor>v3\<rfloor>"
    by (simp add: jitter_def ToInteger_floor v3_def)
  show "of_int k - 1 / 2 ^ 34 < 120000 * double_value random
      \<and> 120000 * double_value random < of_int k + 1 + 1 / 2 ^ 34" if "jitter random = k"
  proof -
    from that have "of_int k \<le> v3" "v3 < of_int k + 1"
      unfolding j by linarith+
    with d show ?thesis unfolding v0_def [symmetric] by linarith
  qed
  show "jitter random = k"
    if "of_int k + 1 / 2 ^ 34 \<le> 120000 * double_value random"
      and "120000 * double_value random \<le> of_int k + 1 - 1 / 2 ^ 34"
  proof -
    from that d have "of_int k \<le> v3" "v3 < of_int k + 1"
      unfolding v0_def [symmetric] by linarith+
    then show ?thesis unfolding j by linarith
  qed
qed

text \<open>
  Claim C7, as it holds. For a value \<open>random\<close> of \<^verbatim>\<open>Math.random()\<close>, the jitter is a whole
  number of milliseconds in \<open>[0, 120000)\<close>; it is the truncation of a product of doubles
  that is rounded three times, which lies within \<open>2 ^ - 34\<close> of \<open>120000 * random\<close>: the
  values of \<open>random\<close> with the jitter \<open>k\<close> lie between \<open>(k - 2 ^ - 34) / 120000\<close> and
  \<open>(k + 1 + 2 ^ - 34) / 120000\<close>, and all those from \<open>(k + 2 ^ - 34) / 120000\<close> to
  \<open>(k + 1 - 2 ^ - 34) / 120000\<close> have it (the jitter need not be \<open>\<lfloor>120000 * random\<rfloor>\<close>). For
  every corrected \<open>now\<close> and every zone in which one offset is in force over the current
  local hour: the target is the current local hour at minute 4, second 0, plus the
  jitter, and the wake time is that target, or, exactly when the target is not after
  \<open>now\<close> or the current minute is 4 or more, what the platform makes of the same local
  time with the hour plus one. At \<open>H:03:00.000\<close> of day \<open>D\<close> the wake time is in hour \<open>H\<close>;
  at \<open>H:05:00.000\<close> it is in the next hour, \<open>H + 1\<close> or 0 after 23, when one offset is in
  force over both hours. (Where a transition skips the next local hour the wake time
  reads hour \<open>H + 2\<close>, as on the day the clocks go forward, below.)
\<close>

theorem autoUpdateWeather_wake:
  "(is_random random \<longrightarrow>
      0 \<le> jitter random \<and> jitter random < 120000
      \<and> (jitter random = k \<longrightarrow>
            of_int k - 1 / 2 ^ 34 < 120000 * double_value random
            \<and> 120000 * double_value random < of_int k + 1 + 1 / 2 ^ 34)
      \<and> (of_int k + 1 / 2 ^ 34 \<le> 120000 * double_value random
            \<and> 120000 * double_value random \<le> of_int k + 1 - 1 / 2 ^ 34 \<longrightarrow>
          jitter random = k))
   \<and> (is_random random
        \<and> steady_on z (MakeDate (local_day z now) (MakeTime (getHours z now) 0 0 0))
             (MakeDate (local_day z now) (MakeTime (getHours z now + 1) 0 0 0)) c \<longrightarrow>
      autoUpdateWeather_next z now random =
        (if local_instant z (local_day z now) (getHours z now) 4 0 (jitter random) \<le> now
            \<or> 4 \<le> getMinutes z now
         then local_instant z (local_day z now) (getHours z now + 1) 4 0 (jitter random)
         else local_instant z (local_day z now) (getHours z now) 4 0 (jitter random)))
   \<and> (is_random random \<and> 0 \<le> H \<and> H < 24
        \<and> steady_on z (MakeDate D (MakeTime H 0 0 0)) (MakeDate D (MakeTime (H + 1) 0 0 0)) c \<longrightarrow>
      autoUpdateWeather_next z (local_instant z D H 3 0 0) random =
        local_instant z D H 4 0 (jitter random)
      \<and> getHours z (autoUpdateWeather_next z (local_instant z D H 3 0 0) random) = H)
   \<and> (is_random random \<and> 0 \<le> H \<and> H < 24
        \<and> steady_on z (MakeDate D (MakeTime H 0 0 0)) (MakeDate D (MakeTime (H + 2) 0 0 0)) c \<longrightarrow>
      autoUpdateWeather_next z (local_instant z D H 5 0 0) random =
        local_instant z D (H + 1) 4 0 (jitter random)
      \<and> getHours z (autoUpdateWeather_next z (local_instant z D H 5 0 0) random) = (H + 1) mod 24)"
proof (intro conjI impI; (elim conjE)?)
  assume r: "is_random random"
  show "0 \<le> jitter random" "jitter random < 120000"
    by (rule jitter_range [OF r])+
  show "of_int k - 1 / 2 ^ 34 < 120000 * double_value random"
    and "120000 * double_value random < of_int k + 1 + 1 / 2 ^ 34" if "jitter random = k"
    using jitter_near_uniform(1) [OF r that] by simp_all
  show "jitter random = k"
    if "of_int k + 1 / 2 ^ 34 \<le> 120000 * double_value random"
      and "120000 * double_value random \<le> of_int k + 1 - 1 / 2 ^ 34"
    using r that by (rule jitter_near_uniform(2))
next
  assume r: "is_random random"
    and st: "steady_on z (MakeDate (local_day z now) (MakeTime (getHours z now) 0 0 0))
             (MakeDate (local_day z now) (MakeTime (getHours z now + 1) 0 0 0)) c"
  show "autoUpdateWeather_next z now random =
        (if local_instant z (local_day z now) (getHours z now) 4 0 (jitter random) \<le> now
            \<or> 4 \<le> getMinutes z now
         then local_instant z (local_day z now) (getHours z now + 1) 4 0 (jitter random)
         else local_instant z (local_day z now) (getHours z now) 4 0 (jitter random))"
    using st jitter_range [OF r] by (rule autoUpdateWeather_next_eq)
next
  assume r: "is_random random" and H: "0 \<le> H" "H < 24"
    and st: "steady_on z (MakeDate D (MakeTime H 0 0 0)) (MakeDate D (MakeTime (H + 1) 0 0 0)) c"
  let ?now = "local_instant z D H 3 0 0"
  note j = jitter_range [OF r]
  have L: "LocalTime z ?now = MakeDate D (MakeTime H 3 0 0)"
    by (rule local_instant_steady(2) [OF st]) simp_all
  have f: "local_day z ?now = D" "getHours z ?now = H" "getMinutes z ?now = 3"
    using L H by (rule local_fields(1) local_fields(2) local_fields(3); simp)+
  have "\<not> MakeTime H 4 0 i \<le> MakeTime H 3 0 0" if "0 \<le> i" for i
    using that by (simp add: MakeTime_def msPerMinute_def)
  from this [OF j(1)]
  have "\<not> local_instant z D H 4 0 (jitter random) \<le> ?now"
    unfolding local_instant_jitter [OF j]
      local_instant_steady(1) [OF st jitter_fields(2-7) [OF j]]
      local_instant_steady(1) [OF st, of 3 0 0, simplified]
    by (simp add: MakeDate_def jitter_fields(1) [OF j, symmetric])
  then show eq: "autoUpdateWeather_next z ?now random = local_instant z D H 4 0 (jitter random)"
    using autoUpdateWeather_next_eq [of z ?now c random] st j by (simp add: f)
  have "LocalTime z (local_instant z D H 4 0 (jitter random)) =
      MakeDate D (MakeTime H (4 + jitter random div 60000) (jitter random mod 60000 div 1000)
        (jitter random mod 1000))"
    unfolding local_instant_jitter [OF j]
    by (rule local_instant_steady(2) [OF st jitter_fields(2-7) [OF j]])
  then show "getHours z (autoUpdateWeather_next z ?now random) = H"
    unfolding eq using H jitter_fields(2-7) [OF j] by (rule local_fields(2))
next
  assume r: "is_random random" and H: "0 \<le> H" "H < 24"
    and st2: "steady_on z (MakeDate D (MakeTime H 0 0 0)) (MakeDate D (MakeTime (H + 2) 0 0 0)) c"
  let ?now = "local_instant z D H 5 0 0"
  note j = jitter_range [OF r]
  have st: "steady_on z (MakeDate D (MakeTime H 0 0 0)) (MakeDate D (MakeTime (H + 1) 0 0 0)) c"
    using st2 by (rule steady_on_subset) (simp_all add: MakeDate_def MakeTime_def msPerHour_def)
  have st': "steady_on z (MakeDate D (MakeTime (H + 1) 0 0 0)) (MakeDate D (MakeTime (H + 1 + 1) 0 0 0)) c"
    using st2 by (rule steady_on_subset) (simp_all add: MakeDate_def MakeTime_def msPerHour_def)
  have L: "LocalTime z ?now = MakeDate D (MakeTime H 5 0 0)"
    by (rule local_instant_steady(2) [OF st]) simp_all
  have f: "local_day z ?now = D" "getHours z ?now = H" "getMinutes z ?now = 5"
    using L H by (rule local_fields(1) local_fields(2) local_fields(3); simp)+
  show eq: "autoUpdateWeather_next z ?now random = local_instant z D (H + 1) 4 0 (jitter random)"
    using autoUpdateWeather_next_eq [of z ?now c random] st j by (simp add: f)
  show "getHours z (autoUpdateWeather_next z ?now random) = (H + 1) mod 24"
    unfolding eq using st' j by (rule getHours_advanced)
qed

lemma jitter_example: "jitter (18164518497061, - 53) = 242"
  by code_simp

lemma is_random_example: "is_random (18164518497061, - 53)"
  by (simp add: is_random_def double_value_def power_int_minus)

lemma new_york_2015_fall_back:
  "steady_on new_york_2015 (MakeDate 16740 (MakeTime 1 0 0 0)) (MakeDate 16740 (MakeTime 2 0 0 0)) (- 14400000)"
  by (simp add: steady_on_def new_york_2015_def MakeDate_def MakeTime_def msPerDay_def msPerHour_def)

lemma new_york_2015_may_15:
  "steady_on new_york_2015 (MakeDate 16570 (MakeTime 13 0 0 0)) (MakeDate 16570 (MakeTime 15 0 0 0)) (- 14400000)"
  by (simp add: steady_on_def new_york_2015_def MakeDate_def MakeTime_def msPerDay_def msPerHour_def)

text \<open>
  With \<open>random = 18164518497061 * 2 ^ - 53\<close> the jitter is 242 ms, where
  \<open>\<lfloor>120000 * random\<rfloor>\<close> is 241. In New York on 2015-11-01 (day 16740), at 01:05:00 in
  daylight-saving time (05:05:00Z), before the clocks go back: the wake time is
  02:04:00.242 local time, 07:04:00.242Z. On 2015-05-15 (day 16570): at 13:03:00 the wake
  time is 13:04:00.242, at 13:05:00 it is 14:04:00.242.
\<close>

theorem autoUpdateWeather_wake_witness:
  "is_random (18164518497061, - 53)
   \<and> jitter (18164518497061, - 53) = 242
   \<and> \<lfloor>120000 * double_value (18164518497061, - 53)\<rfloor> = 241
   \<and> steady_on new_york_2015 (MakeDate 16740 (MakeTime 1 0 0 0)) (MakeDate 16740 (MakeTime 2 0 0 0)) (- 14400000)
   \<and> autoUpdateWeather_next new_york_2015 1446354300000 (18164518497061, - 53) = 1446361440242
   \<and> steady_on new_york_2015 (MakeDate 16570 (MakeTime 13 0 0 0)) (MakeDate 16570 (MakeTime 15 0 0 0)) (- 14400000)
   \<and> autoUpdateWeather_next new_york_2015 1431709380000 (18164518497061, - 53) = 1431709440242
   \<and> autoUpdateWeather_next new_york_2015 1431709500000 (18164518497061, - 53) = 1431713040242
   \<and> getHours new_york_2015 (autoUpdateWeather_next new_york_2015 1431709500000 (18164518497061, - 53)) = 14"
proof -
  note r = is_random_example and j = jitter_example
  have f: "\<lfloor>120000 * double_value (18164518497061, - 53)\<rfloor> = 241"
    by (simp add: double_value_def power_int_minus)
  have D: "local_day new_york_2015 1446354300000 = 16740" "getHours new_york_2015 1446354300000 = 1"
    "getMinutes new_york_2015 1446354300000 = 5"
    by (simp_all add: local_day_def getHours_def getMinutes_def LocalTime_def new_york_2015_def
        Day_def HourFromTime_def MinFromTime_def msPerDay_def msPerHour_def msPerMinute_def)
  have st13: "steady_on new_york_2015 (MakeDate 16570 (MakeTime 13 0 0 0))
      (MakeDate 16570 (MakeTime (13 + 1) 0 0 0)) (- 14400000)"
    using new_york_2015_may_15 by (rule steady_on_subset) (simp_all add: MakeDate_def MakeTime_def msPerHour_def)
  have st15: "steady_on new_york_2015 (MakeDate 16570 (MakeTime 13 0 0 0))
      (MakeDate 16570 (MakeTime (13 + 2) 0 0 0)) (- 14400000)"
    using new_york_2015_may_15 by simp
  show ?thesis
    using r j f D new_york_2015_fall_back new_york_2015_may_15 st13 st15
      autoUpdateWeather_wake [of "(18164518497061, - 53)" 242 new_york_2015 1446354300000 "- 14400000" 13 16570]
    by (simp add: local_instant_def UTC_def new_york_2015_def MakeDate_def
        MakeTime_def msPerDay_def msPerHour_def msPerMinute_def msPerSecond_def
        getHours_def LocalTime_def HourFromTime_def)
qed

lemma jitter_zero: "jitter (0, 0) = 0"
  by code_simp

lemmas date_defs = LocalTime_def UTC_def new_york_2015_def Day_def HourFromTime_def MinFromTime_def
  SecFromTime_def msFromTime_def MakeDate_def MakeTime_def msPerDay_def msPerHour_def
  msPerMinute_def msPerSecond_def

text \<open>
  At \<open>HH:05:00\<close> the target hour need not be \<open>HH + 1\<close>. In New York on 2015-03-08, at
  01:05:00.000 local time (06:05:00Z) and with \<^verbatim>\<open>Math.random()\<close> returning 0: the target
  01:04:00.000 is before \<open>now\<close>, so \<^verbatim>\<open>next.setHours(2)\<close> is called; the local time
  02:04:00.000 does not exist on that day, the platform makes of it the instant
  07:04:00Z, and the wake time reads 03:04:00.000: the target hour is \<open>HH + 2\<close>.
\<close>

theorem autoUpdateWeather_spring_forward:
  "is_random (0, 0)
   \<and> getHours new_york_2015 1425794700000 = 1
   \<and> getMinutes new_york_2015 1425794700000 = 5
   \<and> getSeconds new_york_2015 1425794700000 = 0
   \<and> getMilliseconds new_york_2015 1425794700000 = 0
   \<and> autoUpdateWeather_next new_york_2015 1425794700000 (0, 0) = 1425798240000
   \<and> getHours new_york_2015 (autoUpdateWeather_next new_york_2015 1425794700000 (0, 0)) = 3
   \<and> getMinutes new_york_2015 (autoUpdateWeather_next new_york_2015 1425794700000 (0, 0)) = 4"
proof -
  have r: "is_random (0, 0)"
    by (simp add: is_random_def double_value_def)
  have g: "getHours new_york_2015 1425794700000 = 1" "getMinutes new_york_2015 1425794700000 = 5"
    "getSeconds new_york_2015 1425794700000 = 0" "getMilliseconds new_york_2015 1425794700000 = 0"
    by (simp_all add: getHours_def getMinutes_def getSeconds_def getMilliseconds_def date_defs)
  have 1: "setMinutes new_york_2015 1425794700000 4 = 1425794640000"
    by (simp add: setMinutes_def Let_def date_defs)
  have 2: "setSeconds new_york_2015 1425794640000 0 = 1425794640000"
    by (simp add: setSeconds_def Let_def date_defs)
  have 3: "setMilliseconds new_york_2015 1425794640000 0 = 1425794640000"
    by (simp add: setMilliseconds_def Let_def date_defs)
  have 4: "getHours new_york_2015 1425794640000 = 1"
    by (simp add: getHours_def date_defs)
  have 5: "setHours new_york_2015 1425794640000 2 = 1425798240000"
    by (simp add: setHours_def Let_def date_defs)
  have n: "autoUpdateWeather_next new_york_2015 1425794700000 (0, 0) = 1425798240000"
    by (simp add: autoUpdateWeather_next_def jitter_zero Let_def 1 2 3 4 5 g)
  have h: "getHours new_york_2015 1425798240000 = 3" "getMinutes new_york_2015 1425798240000 = 4"
    by (simp_all add: getHours_def getMinutes_def date_defs)
  show ?thesis
    unfolding n using r g h by simp
qed

subsection \<open>Calibration of the offset\<close>

text \<open>
  Claim C4. For all instants \<open>server\<close> and \<open>local\<close>, calibrating the clock with them sets
  the offset to exactly \<open>server - local\<close> when \<open>|server - local| \<ge> 50\<close> ms and to \<open>0\<close> when
  \<open>|server - local| < 50\<close> ms, whatever the offset was before; every later reading of the
  corrected clock is the local reading plus the stored offset.
\<close>

theorem updateTimeOffset_calibrates:
  "updateTimeOffset_onload (JNumber server) local old =
     (if \<bar>server - local\<bar> < 50 then 0 else server - local)
   \<and> getCorrectedDatetime dateNow (updateTimeOffset_onload (JNumber server) local old) =
     dateNow + (if \<bar>server - local\<bar> < 50 then 0 else server - local)"
  by (simp add: getCorrectedDatetime_def Let_def)

theorem updateTimeOffset_calibrates_witness:
  "updateTimeOffset_onload (JNumber 1431691200000) 1431691199000 0 = 1000
   \<and> updateTimeOffset_onload (JNumber 1431691199950) 1431691200000 0 = - 50
   \<and> updateTimeOffset_onload (JNumber 1431691200049) 1431691200000 77 = 0
   \<and> getCorrectedDatetime 1431691205000
        (updateTimeOffset_onload (JNumber 1431691200000) 1431691199000 0) = 1431691206000"
  using updateTimeOffset_calibrates [of 1431691200000 1431691199000 0 1431691205000]
    updateTimeOffset_calibrates [of 1431691199950 1431691200000 0 0]
    updateTimeOffset_calibrates [of 1431691200049 1431691200000 77 0]
  by simp

text \<open>
  Claim C10. When the payload of the time source is not a number, the callback leaves the
  offset as it was: \<open>0\<close> when it was the initial one, and every reading of the corrected
  clock is unchanged. No other code writes the offset: a handler after which
  \<^verbatim>\<open>timeOffset\<close> differs is this callback, with a payload that is a number.
\<close>

theorem updateTimeOffset_ignores_non_numbers:
  "(typeof_json data \<noteq> ''number'' \<longrightarrow>
      updateTimeOffset_onload data dateNow old = old
      \<and> updateTimeOffset_onload data dateNow timeOffset_initial = 0
      \<and> getCorrectedDatetime n (updateTimeOffset_onload data dateNow old) = getCorrectedDatetime n old)
   \<and> (var_timeOffset (run_handler h dateNow g) \<noteq> var_timeOffset g \<longrightarrow>
        (\<exists>server. h = UpdateTimeOffsetOnload (JNumber server)))"
proof -
  have 1: "updateTimeOffset_onload data dateNow x = x" if "typeof_json data \<noteq> ''number''" for x
    using that by (cases data) simp_all
  have job: "var_timeOffset (run_job func x) = var_timeOffset x" for func x
    by (cases func) simp_all
  have 2: "\<exists>server. h = UpdateTimeOffsetOnload (JNumber server)"
    if "var_timeOffset (run_handler h dateNow g) \<noteq> var_timeOffset g"
  proof (cases h)
    case (UpdateTimeOffsetOnload d)
    with that show ?thesis by (cases d) simp_all
  qed (use that in \<open>simp_all add: job split: sched_action.splits if_splits\<close>)
  from 1 2 show ?thesis by (simp add: timeOffset_initial_def)
qed

theorem updateTimeOffset_ignores_non_numbers_witness:
  "typeof_json (JString ''1431691200000'') \<noteq> ''number''
   \<and> updateTimeOffset_onload (JString ''1431691200000'') 1431691199000 120 = 120
   \<and> updateTimeOffset_onload JNull 1431691199000 timeOffset_initial = 0
   \<and> var_timeOffset (run_handler (UpdateTimeOffsetOnload (JNumber 1431691200000)) 1431691199000
         \<lparr>var_timeOffset = 0, var_weatherTextIsSet = False\<rparr>) = 1000"
  using updateTimeOffset_ignores_non_numbers [of "JString ''1431691200000''" 1431691199000 120 0
      "UpdateTimeOffsetOnload (JNumber 1431691200000)" "\<lparr>var_timeOffset = 0, var_weatherTextIsSet = False\<rparr>"]
    updateTimeOffset_ignores_non_numbers [of JNull 1431691199000 120 0
      "UpdateTimeOffsetOnload (JNumber 1431691200000)" "\<lparr>var_timeOffset = 0, var_weatherTextIsSet = False\<rparr>"]
  by (simp add: timeOffset_initial_def)

subsection \<open>twoDigits\<close>

lemma digit_char_simps:
  "digit_char 0 = CHR ''0''" "digit_char 1 = CHR ''1''" "digit_char 2 = CHR ''2''"
  "digit_char 3 = CHR ''3''" "digit_char 4 = CHR ''4''" "digit_char 5 = CHR ''5''"
  "digit_char 6 = CHR ''6''" "digit_char 7 = CHR ''7''" "digit_char 8 = CHR ''8''"
  "digit_char 9 = CHR ''9''"
  by (simp_all add: digit_char_def)

lemma string_of_nat_length:
  "n < 10 \<Longrightarrow> length (string_of_nat n) = 1"
  "10 \<le> n \<Longrightarrow> n < 100 \<Longrightarrow> length (string_of_nat n) = 2"
proof -
  show 1: "length (string_of_nat n) = 1" if "n < 10" for n
    using that by (simp add: string_of_nat.simps [of n])
  assume "10 \<le> n" "n < 100"
  then have "n div 10 < 10" by simp
  from 1 [OF this] \<open>10 \<le> n\<close> show "length (string_of_nat n) = 2"
    by (simp add: string_of_nat.simps [of n])
qed

lemma twoDigits_integral:
  fixes k :: int
  assumes "0 \<le> k" "k < 100"
  shows "twoDigits (Number (of_int k)) =
    Inr ((if k < 10 then ''0'' else []) @ string_of_nat (nat k))"
  using assms by (simp add: ToString_int_def)

lemma twoDigits_length:
  fixes k :: int
  assumes "0 \<le> k" "k < 100"
  shows "\<exists>s. twoDigits (Number (of_int k)) = Inr s \<and> length s = 2"
proof (cases "k < 10")
  case True
  with assms have "nat k < 10" by simp
  with True show ?thesis
    unfolding twoDigits_integral [OF assms] by (simp add: string_of_nat_length(1))
next
  case False
  with assms have "10 \<le> nat k" "nat k < 100" by simp_all
  with False show ?thesis
    unfolding twoDigits_integral [OF assms] by (simp add: string_of_nat_length(2))
qed

lemma twoDigits_Inr_imp:
  assumes "twoDigits v = Inr s"
  shows "\<exists>k::int. v = Number (of_int k) \<and> 0 \<le> k \<and> k < 100"
proof (cases v)
  case (Number x)
  with assms have x: "0 \<le> x" "x < 100" "of_int \<lfloor>x\<rfloor> = x"
    by (auto split: if_splits)
  then have "0 \<le> \<lfloor>x\<rfloor>" "\<lfloor>x\<rfloor> < 100" by (simp_all add: floor_less_iff)
  with x(3) Number show ?thesis by metis
qed (use assms in auto)

lemma twoDigits_throws:
  assumes "\<not> (\<exists>k::int. v = Number (of_int k) \<and> 0 \<le> k \<and> k < 100)"
  shows "twoDigits v = Inl (Thrown ''Integer expected'')"
proof (cases "twoDigits v")
  case (Inl e)
  then show ?thesis by (cases v) (auto split: if_splits)
next
  case (Inr s)
  with assms twoDigits_Inr_imp show ?thesis by blast
qed

text \<open>
  Claim C9. For every value \<open>v\<close>, \<^verbatim>\<open>twoDigits(v)\<close> returns a string of exactly two characters
  if and only if \<open>v\<close> is an integral number with \<open>0 \<le> v < 100\<close>; for every other value (a
  number below \<open>0\<close> or from \<open>100\<close> on, a number that is not integral, \<^verbatim>\<open>NaN\<close>, an infinity, a
  value that is not a number) it throws \<^verbatim>\<open>"Integer expected"\<close> and returns nothing.
\<close>

theorem twoDigits_two_characters_or_throws:
  "((\<exists>s. twoDigits v = Inr s \<and> length s = 2) \<longleftrightarrow>
      (\<exists>k::int. v = Number (of_int k) \<and> 0 \<le> k \<and> k < 100))
   \<and> (\<not> (\<exists>k::int. v = Number (of_int k) \<and> 0 \<le> k \<and> k < 100) \<longrightarrow>
        twoDigits v = Inl (Thrown ''Integer expected''))"
  using twoDigits_length twoDigits_Inr_imp twoDigits_throws by blast

text \<open>The examples of the comment above \<^verbatim>\<open>twoDigits\<close>, and inputs that throw.\<close>

theorem twoDigits_two_characters_or_throws_witness:
  "twoDigits (Number 0) = Inr ''00''
   \<and> twoDigits (Number 8) = Inr ''08''
   \<and> twoDigits (Number 52) = Inr ''52''
   \<and> twoDigits (Number 100) = Inl (Thrown ''Integer expected'')
   \<and> twoDigits (Number (- 1)) = Inl (Thrown ''Integer expected'')
   \<and> twoDigits (Number (17 / 2)) = Inl (Thrown ''Integer expected'')
   \<and> twoDigits NaN = Inl (Thrown ''Integer expected'')
   \<and> twoDigits (String ''07'') = Inl (Thrown ''Integer expected'')"
  using twoDigits_two_characters_or_throws [of "Number 52"]
    twoDigits_two_characters_or_throws [of "String ''07''"]
  by (simp add: ToString_int_def string_of_nat.simps digit_char_def)

subsection \<open>The morning reminders\<close>

lemma string_of_nat_hd:
  "string_of_nat n \<noteq> [] \<and> hd (string_of_nat n) \<in> set ''0123456789''"
proof (induction n rule: string_of_nat.induct)
  case (1 n)
  show ?case
  proof (cases "n < 10")
    case True
    then have "digit_char n \<in> set ''0123456789''"
      unfolding digit_char_def by (intro nth_mem) simp
    with True show ?thesis by (simp add: string_of_nat.simps [of n])
  next
    case False
    with 1 show ?thesis by (simp add: string_of_nat.simps [of n])
  qed
qed

lemma ToString_int_hd:
  "ToString_int i \<noteq> [] \<and> hd (ToString_int i) \<in> set ''-0123456789''"
  using string_of_nat_hd [of "nat i"] by (auto simp add: ToString_int_def)

lemma doMorningRequest_key_not_length: "doMorningRequest_key z now \<noteq> ''length''"
proof
  assume "doMorningRequest_key z now = ''length''"
  then have "hd (doMorningRequest_key z now) = CHR ''l''" by simp
  moreover have "hd (doMorningRequest_key z now) = hd (ToString_int (getFullYear z now))"
    using ToString_int_hd [of "getFullYear z now"] by (simp add: doMorningRequest_key_def)
  ultimately show False
    using ToString_int_hd [of "getFullYear z now"] by auto
qed

lemma typeof_json_object_iff:
  "typeof_json data = ''object'' \<longleftrightarrow> data = JNull \<or> (\<exists>xs. data = JArray xs) \<or> (\<exists>kvs. data = JObject kvs)"
  by (cases data) simp_all

lemma typeof_json_number_iff: "typeof_json data = ''number'' \<longleftrightarrow> (\<exists>n. data = JNumber n)"
  by (cases data) simp_all

lemma show_messages_strings:
  "show_messages (JArray (map JString (m # msgs))) = (m # msgs, None)"
proof -
  have t: "takeWhile (\<lambda>x. \<not> ToString_throws x) (map JString ss) = map JString ss" for ss
    by (induction ss) simp_all
  have e: "\<not> list_ex ToString_throws (map JString ss)" for ss
    by (induction ss) simp_all
  have m: "map (ToString_json \<circ> JString) ss = ss" for ss
    by (induction ss) simp_all
  have "show_messages (JArray (map JString ss)) =
      (if ss = [] then ([''(None)''], None) else (ss, None))" for ss
    by (simp add: t e m)
  from this [of "m # msgs"] show ?thesis by simp
qed

lemma doMorningRequest_onload_reminders:
  assumes "doMorningRequest_key z now = key"
  shows "map_of kvs key = Some (JArray (map JString (m # msgs))) \<Longrightarrow>
      doMorningRequest_onload z now (JObject kvs) = (m # msgs, None)"
    and "map_of kvs key = Some (JArray []) \<Longrightarrow>
      doMorningRequest_onload z now (JObject kvs) = ([''(None)''], None)"
    and "map_of kvs key = None \<Longrightarrow>
      doMorningRequest_onload z now (JObject kvs) = ([''(Data missing)''], None)"
    and "typeof_json data \<noteq> ''object'' \<Longrightarrow>
      doMorningRequest_onload z now data = ([''(Error)''], None)"
  using assms show_messages_strings [of m msgs]
  by (simp_all add: doMorningRequest_onload_def del: show_messages.simps list.map)
     (simp_all)

lemma year_2015_05_15:
  "getFullYear (constant_zone 0) 1431691200000 = 2015"
  "getMonth (constant_zone 0) 1431691200000 = 4"
  "getDate (constant_zone 0) 1431691200000 = 15"
  by (simp_all add: getFullYear_def getMonth_def getDate_def LocalTime_def constant_zone_def
      YearFromTime_def MonthFromTime_def DateFromTime_def DayWithinYear_def InLeapYear_def
      DaysInYear_def DayFromYear_def Day_def msPerDay_def month_start_def Let_def)

lemma key_2015_05_15: "doMorningRequest_key (constant_zone 0) 1431691200000 = ''20150515''"
  by (simp add: doMorningRequest_key_def year_2015_05_15 ToString_int_def string_of_nat.simps
      digit_char_def)

text \<open>
  Claim C8 says that a payload that is not an object shows the single placeholder
  \<^verbatim>\<open>"(Error)"\<close>. The callback tests \<^verbatim>\<open>typeof data != "object"\<close>, which is false for
  \<^verbatim>\<open>null\<close> and for arrays: for the payload \<^verbatim>\<open>null\<close>, \<^verbatim>\<open>key in data\<close> raises a TypeError and
  the list stays empty; for the payload \<^verbatim>\<open>[]\<close> the list is \<^verbatim>\<open>"(Data missing)"\<close>. (What the
  claim says of a payload that is an object, and of a number, a string or a boolean,
  holds: \<open>doMorningRequest_onload_shapes\<close> below.)
\<close>

theorem doMorningRequest_onload_null_payload:
  "doMorningRequest_onload z now JNull = ([], Some TypeError)
   \<and> doMorningRequest_onload z now (JArray []) = ([''(Data missing)''], None)"
proof -
  have "get_property (JArray []) (doMorningRequest_key z now) = None"
    by (simp add: doMorningRequest_key_not_length split: option.split)
  then show ?thesis
    by (simp add: doMorningRequest_onload_def)
qed

text \<open>
  What holds of the reminders: for a payload that is an object, the list shown is the
  sequence of strings under the key of the corrected date when it is there and not
  empty, the placeholder \<^verbatim>\<open>"(None)"\<close> when it is there and empty, and \<^verbatim>\<open>"(Data missing)"\<close> when
  the key is absent; for a payload whose \<^verbatim>\<open>typeof\<close> is not "object" (a number, a string or
  a boolean) it is \<^verbatim>\<open>"(Error)"\<close>; nothing is raised.
\<close>

theorem doMorningRequest_onload_shapes:
  "(map_of kvs (doMorningRequest_key z now) = Some (JArray (map JString (m # msgs))) \<longrightarrow>
      doMorningRequest_onload z now (JObject kvs) = (m # msgs, None))
   \<and> (map_of kvs (doMorningRequest_key z now) = Some (JArray []) \<longrightarrow>
      doMorningRequest_onload z now (JObject kvs) = ([''(None)''], None))
   \<and> (map_of kvs (doMorningRequest_key z now) = None \<longrightarrow>
      doMorningRequest_onload z now (JObject kvs) = ([''(Data missing)''], None))
   \<and> (typeof_json data \<noteq> ''object'' \<longrightarrow>
      doMorningRequest_onload z now data = ([''(Error)''], None))"
  using doMorningRequest_onload_reminders [OF refl] by blast

text \<open>At noon of 2015-05-15 in a zone without offset the key is \<^verbatim>\<open>"20150515"\<close>.\<close>

theorem doMorningRequest_onload_shapes_witness:
  "doMorningRequest_key (constant_zone 0) 1431691200000 = ''20150515''
   \<and> doMorningRequest_onload (constant_zone 0) 1431691200000
        (JObject [(''20150514'', JArray []), (''20150515'', JArray [JString ''Buy milk''])]) =
      ([''Buy milk''], None)
   \<and> doMorningRequest_onload (constant_zone 0) 1431691200000 (JObject [(''20150515'', JArray [])]) =
      ([''(None)''], None)
   \<and> doMorningRequest_onload (constant_zone 0) 1431691200000 (JObject [(''20150514'', JArray [])]) =
      ([''(Data missing)''], None)
   \<and> doMorningRequest_onload (constant_zone 0) 1431691200000 (JString ''20150515'') =
      ([''(Error)''], None)"
  using key_2015_05_15
    doMorningRequest_onload_shapes [of
      "[(''20150514'', JArray []), (''20150515'', JArray [JString ''Buy milk''])]"
      "constant_zone 0" 1431691200000 "''Buy milk''" "[]" "JString ''20150515''"]
    doMorningRequest_onload_shapes [of "[(''20150515'', JArray [])]"
      "constant_zone 0" 1431691200000 "''Buy milk''" "[]" "JString ''20150515''"]
    doMorningRequest_onload_shapes [of "[(''20150514'', JArray [])]"
      "constant_zone 0" 1431691200000 "''Buy milk''" "[]" "JString ''20150515''"]
  by simp

end
